theory Spec2Isabelle
  imports Complex_Main
begin

section \<open>Single-precision values\<close>

text \<open>
  The filter computes in C \<^verbatim>\<open>float\<close> (IEEE 754 binary32). A value is a finite number or
  one of the three special values. The model keeps what decides the behaviour of the
  filter:
  \<^item> the special values follow the IEEE rules of each operation the filter uses;
  \<^item> a sum, difference, product or quotient whose magnitude reaches
    \<open>2^128 - 2^103\<close> (the midpoint between the largest float and \<open>2^128\<close>) overflows to
    an infinity;
  \<^item> \<^verbatim>\<open>exp\<close> gives \<open>0\<close> when its exact value is at most \<open>2^-150\<close> (half the smallest
    subnormal), and \<open>+\<infinity>\<close> when it reaches the overflow bound.
  A finite result inside the range is the exact real: rounding to 24 bits, the sign of
  zero, and the flush to zero of a tiny product or quotient are not modelled.
\<close>

datatype cfloat = Fin real | PInf | NInf | NaN

definition flt_overflow :: real where
  "flt_overflow = 2 ^ 128 - 2 ^ 103"

definition overflow :: "real \<Rightarrow> cfloat" where
  "overflow r =
     (if flt_overflow \<le> r then PInf else if r \<le> - flt_overflow then NInf else Fin r)"

fun fneg :: "cfloat \<Rightarrow> cfloat" where
  "fneg (Fin a) = Fin (- a)"
| "fneg PInf = NInf"
| "fneg NInf = PInf"
| "fneg NaN = NaN"

fun fadd :: "cfloat \<Rightarrow> cfloat \<Rightarrow> cfloat" where
  "fadd (Fin a) (Fin b) = overflow (a + b)"
| "fadd NaN _ = NaN"
| "fadd _ NaN = NaN"
| "fadd PInf NInf = NaN"
| "fadd NInf PInf = NaN"
| "fadd PInf _ = PInf"
| "fadd _ PInf = PInf"
| "fadd NInf _ = NInf"
| "fadd _ NInf = NInf"

definition fsub :: "cfloat \<Rightarrow> cfloat \<Rightarrow> cfloat" where
  "fsub a b = fadd a (fneg b)"

fun fmul :: "cfloat \<Rightarrow> cfloat \<Rightarrow> cfloat" where
  "fmul (Fin a) (Fin b) = overflow (a * b)"
| "fmul NaN _ = NaN"
| "fmul _ NaN = NaN"
| "fmul (Fin a) PInf = (if a = 0 then NaN else if 0 < a then PInf else NInf)"
| "fmul (Fin a) NInf = (if a = 0 then NaN else if 0 < a then NInf else PInf)"
| "fmul PInf (Fin b) = (if b = 0 then NaN else if 0 < b then PInf else NInf)"
| "fmul NInf (Fin b) = (if b = 0 then NaN else if 0 < b then NInf else PInf)"
| "fmul PInf PInf = PInf"
| "fmul PInf NInf = NInf"
| "fmul NInf PInf = NInf"
| "fmul NInf NInf = PInf"

fun fdiv :: "cfloat \<Rightarrow> cfloat \<Rightarrow> cfloat" where
  "fdiv (Fin a) (Fin b) =
     (if b = 0 then (if a = 0 then NaN else if 0 < a then PInf else NInf)
      else overflow (a / b))"
| "fdiv NaN _ = NaN"
| "fdiv _ NaN = NaN"
| "fdiv (Fin a) PInf = Fin 0"
| "fdiv (Fin a) NInf = Fin 0"
| "fdiv PInf (Fin b) = (if 0 \<le> b then PInf else NInf)"
| "fdiv NInf (Fin b) = (if 0 \<le> b then NInf else PInf)"
| "fdiv PInf PInf = NaN"
| "fdiv PInf NInf = NaN"
| "fdiv NInf PInf = NaN"
| "fdiv NInf NInf = NaN"

text \<open>\<^verbatim>\<open>pow(v, 2)\<close>: the square.\<close>

definition pow2 :: "cfloat \<Rightarrow> cfloat" where
  "pow2 v = fmul v v"

fun fsqrt :: "cfloat \<Rightarrow> cfloat" where
  "fsqrt (Fin a) = (if a < 0 then NaN else Fin (sqrt a))"
| "fsqrt PInf = PInf"
| "fsqrt NInf = NaN"
| "fsqrt NaN = NaN"

fun fexp :: "cfloat \<Rightarrow> cfloat" where
  "fexp (Fin a) =
     (if exp a \<le> 1 / 2 ^ 150 then Fin 0
      else if flt_overflow \<le> exp a then PInf
      else Fin (exp a))"
| "fexp PInf = PInf"
| "fexp NInf = Fin 0"
| "fexp NaN = NaN"

text \<open>The comparisons \<^verbatim>\<open>a > b\<close> and \<^verbatim>\<open>a == b\<close>: false whenever an operand is NaN.\<close>

fun fgt :: "cfloat \<Rightarrow> cfloat \<Rightarrow> bool" where
  "fgt (Fin a) (Fin b) = (b < a)"
| "fgt NaN _ = False"
| "fgt _ NaN = False"
| "fgt _ PInf = False"
| "fgt NInf _ = False"
| "fgt PInf _ = True"
| "fgt _ NInf = True"

fun feq :: "cfloat \<Rightarrow> cfloat \<Rightarrow> bool" where
  "feq NaN _ = False"
| "feq _ NaN = False"
| "feq a b = (a = b)"

fun is_finite :: "cfloat \<Rightarrow> bool" where
  "is_finite (Fin a) = True"
| "is_finite _ = False"

section \<open>Data\<close>

text \<open>
  \<^verbatim>\<open>common_msgs::Vector2\<close> has the fields \<^verbatim>\<open>x\<close> and \<^verbatim>\<open>y\<close>. Of the members of
  \<^verbatim>\<open>ModelWrapper\<close>, \<^verbatim>\<open>inferGoals\<close> writes \<^verbatim>\<open>init_liks_\<close> and \<^verbatim>\<open>prev_prior_\<close> only;
  they are the state. The members it reads (the robot's velocity, the hypotheses, the
  simulated velocities) are arguments.
\<close>

record Vector2 =
  vx :: cfloat
  vy :: cfloat

record ModelWrapper =
  init_liks :: "bool list"
  prev_prior :: "cfloat list"

text \<open>Reading or writing a vector past its end is undefined behaviour in the source.\<close>

datatype error = OutOfBounds

text \<open>
  \<^verbatim>\<open>ModelWrapper::init\<close>: \<^verbatim>\<open>init_liks_.resize(3, false); prev_prior_.resize(3);\<close>
\<close>

definition ModelWrapper_init :: ModelWrapper where
  "ModelWrapper_init = \<lparr>init_liks = replicate 3 False, prev_prior = replicate 3 (Fin 0)\<rparr>"

section \<open>\<^verbatim>\<open>ModelWrapper::inferGoals\<close>\<close>

definition max_acc :: cfloat where
  "max_acc = Fin (12 / 10)"

definition ros_freq :: cfloat where
  "ros_freq = Fin (1 / 10)"

definition PI :: cfloat where
  "PI = Fin pi"

definition reset_priors :: bool where
  "reset_priors = False"

text \<open>The body of the first loop: the bivariate Gaussian of one goal.\<close>

definition goal_likelihood :: "Vector2 \<Rightarrow> Vector2 \<Rightarrow> cfloat" where
  "goal_likelihood curr_vel sim_vel =
     (let x = vx sim_vel;
          y = vy sim_vel;
          ux = vx curr_vel;
          uy = vy curr_vel;
          ox = fmul (fdiv max_acc (Fin 2)) ros_freq;
          oy = fmul (fdiv max_acc (Fin 2)) ros_freq;
          o2x = pow2 ox;
          o2y = pow2 oy;
          corr = Fin 0;
          corr2 = pow2 corr;
          t1 = fdiv (pow2 (fsub x ux)) o2x;
          t2 = fdiv (pow2 (fsub y uy)) o2y;
          t3 = fdiv (fmul (fmul (fmul (Fin 2) corr) (fsub x ux)) (fsub y uy)) (fmul ox oy);
          p = fdiv (Fin 1)
                (fmul (fmul (fmul (fmul (Fin 2) PI) ox) oy) (fsqrt (fsub (Fin 1) corr2)));
          e = fexp (fmul (fneg (fdiv (Fin 1) (fmul (Fin 2) (fsub (Fin 1) corr2))))
                     (fsub (fadd t1 t2) t3))
      in fmul p e)"

text \<open>A \<^verbatim>\<open>for\<close> loop over indices whose body may fail.\<close>

fun for_loop :: "(nat \<Rightarrow> 'a \<Rightarrow> error + 'a) \<Rightarrow> nat list \<Rightarrow> 'a \<Rightarrow> error + 'a" where
  "for_loop body [] a = Inr a"
| "for_loop body (i # is) a =
     (case body i a of Inl e \<Rightarrow> Inl e | Inr a' \<Rightarrow> for_loop body is a')"

text \<open>
  The body of the second loop (lines 150 to 162). The loop state is the object, the vector
  \<^verbatim>\<open>g_posteriors\<close> and the running sum \<^verbatim>\<open>posterior_norm\<close>. The flag \<^verbatim>\<open>reset_priors\<close> and
  the vector \<^verbatim>\<open>g_likelihoods\<close> are locals of \<^verbatim>\<open>inferGoals\<close> that the loop reads; here they
  are arguments. In the source \<^verbatim>\<open>g_likelihoods\<close> has \<^verbatim>\<open>n_goals\<close> entries, so its index is
  always in range; the model checks it because any vector can be passed.
\<close>

definition posterior_body ::
  "bool \<Rightarrow> cfloat \<Rightarrow> cfloat list \<Rightarrow> nat \<Rightarrow> ModelWrapper \<times> cfloat list \<times> cfloat
     \<Rightarrow> error + ModelWrapper \<times> cfloat list \<times> cfloat" where
  "posterior_body reset uniform_prior g_likelihoods goal =
     (\<lambda>(m, g_posteriors, posterior_norm).
        if length (init_liks m) \<le> goal then Inl OutOfBounds
        else if reset \<or> \<not> init_liks m ! goal then
          Inr (m\<lparr>init_liks := (init_liks m)[goal := True]\<rparr>,
               g_posteriors[goal := uniform_prior],
               fadd posterior_norm uniform_prior)
        else if length g_likelihoods \<le> goal \<or> length (prev_prior m) \<le> goal
          then Inl OutOfBounds
        else
          (let v = fmul (g_likelihoods ! goal) (prev_prior m ! goal)
           in Inr (m, g_posteriors[goal := v], fadd posterior_norm v)))"

text \<open>
  The body of the third loop (lines 167 to 182). The loop state is the object and the
  vector \<^verbatim>\<open>norm_posteriors\<close>.
\<close>

definition normalize_body ::
  "cfloat \<Rightarrow> cfloat list \<Rightarrow> cfloat \<Rightarrow> nat \<Rightarrow> ModelWrapper \<times> cfloat list
     \<Rightarrow> error + ModelWrapper \<times> cfloat list" where
  "normalize_body uniform_prior g_posteriors posterior_norm goal =
     (\<lambda>(m, norm_posteriors).
        if feq posterior_norm (Fin 0) then
          Inr (m, norm_posteriors[goal := uniform_prior])
        else
          (let norm_posterior = fdiv (g_posteriors ! goal) posterior_norm
           in if length (prev_prior m) \<le> goal then Inl OutOfBounds
              else if fgt norm_posterior (Fin (1 / 100)) then
                Inr (m\<lparr>prev_prior := (prev_prior m)[goal := norm_posterior]\<rparr>,
                     norm_posteriors[goal := norm_posterior])
              else
                Inr (m\<lparr>prev_prior := (prev_prior m)[goal := Fin (5 / 1000)]\<rparr>,
                     norm_posteriors[goal := norm_posterior])))"

text \<open>
  Lines 146 to 182 for one agent: both loops, from the likelihoods to the vector
  \<^verbatim>\<open>norm_posteriors\<close>.
\<close>

definition uniform_prior :: "nat \<Rightarrow> cfloat" where
  "uniform_prior n_goals = fdiv (Fin 1) (Fin (real n_goals))"

definition posterior_loop ::
  "bool \<Rightarrow> nat \<Rightarrow> cfloat list \<Rightarrow> ModelWrapper
     \<Rightarrow> error + ModelWrapper \<times> cfloat list \<times> cfloat" where
  "posterior_loop reset n_goals g_likelihoods m =
     for_loop (posterior_body reset (uniform_prior n_goals) g_likelihoods)
       [0..<n_goals] (m, replicate n_goals (Fin 0), Fin 0)"

definition agent_update ::
  "bool \<Rightarrow> nat \<Rightarrow> cfloat list \<Rightarrow> ModelWrapper \<Rightarrow> error + ModelWrapper \<times> cfloat list" where
  "agent_update reset n_goals g_likelihoods m =
     (case posterior_loop reset n_goals g_likelihoods m of
        Inl e \<Rightarrow> Inl e
      | Inr (m1, g_posteriors, posterior_norm) \<Rightarrow>
          for_loop (normalize_body (uniform_prior n_goals) g_posteriors posterior_norm)
            [0..<n_goals] (m1, replicate n_goals (Fin 0)))"

text \<open>
  One iteration of the loop over the agents (lines 110 to 184): the slice of the simulated
  velocities, the likelihoods, the update, and the log line that reads
  \<^verbatim>\<open>norm_posteriors[0]\<close>, \<^verbatim>\<open>[1]\<close> and \<^verbatim>\<open>[2]\<close> (\<^verbatim>\<open>ROS_INFO_STREAM\<close>, evaluated at the
  default log level).
\<close>

definition infer_agent ::
  "Vector2 \<Rightarrow> nat \<Rightarrow> Vector2 list \<Rightarrow> nat \<Rightarrow> ModelWrapper
     \<Rightarrow> error + ModelWrapper \<times> cfloat list" where
  "infer_agent curr_vel n_goals sequence_sim_vels agent m =
     (let begin_i = agent * n_goals;
          end_i = begin_i + n_goals
      in if length sequence_sim_vels < end_i then Inl OutOfBounds
         else
           (let agent_sim_vels = take n_goals (drop begin_i sequence_sim_vels);
                g_likelihoods = map (goal_likelihood curr_vel) agent_sim_vels
            in case agent_update reset_priors n_goals g_likelihoods m of
                 Inl e \<Rightarrow> Inl e
               | Inr (m', norm_posteriors) \<Rightarrow>
                   if length norm_posteriors \<le> 2 then Inl OutOfBounds
                   else Inr (m', norm_posteriors)))"

text \<open>
  The whole function: the loop over the agents. It returns nothing in the source; the
  model returns the vectors \<^verbatim>\<open>norm_posteriors\<close> it logs, one for each agent.
\<close>

definition agents_body ::
  "Vector2 \<Rightarrow> nat \<Rightarrow> Vector2 list \<Rightarrow> nat \<Rightarrow> ModelWrapper \<times> cfloat list list
     \<Rightarrow> error + ModelWrapper \<times> cfloat list list" where
  "agents_body curr_vel n_goals sequence_sim_vels agent =
     (\<lambda>(m0, out).
        case infer_agent curr_vel n_goals sequence_sim_vels agent m0 of
          Inl e \<Rightarrow> Inl e
        | Inr (m', norm_posteriors) \<Rightarrow> Inr (m', out @ [norm_posteriors]))"

definition inferGoals ::
  "nat \<Rightarrow> nat \<Rightarrow> Vector2 \<Rightarrow> Vector2 list \<Rightarrow> ModelWrapper
     \<Rightarrow> error + ModelWrapper \<times> cfloat list list" where
  "inferGoals n_agents n_goals curr_vel sequence_sim_vels m =
     for_loop (agents_body curr_vel n_goals sequence_sim_vels) [0..<n_agents] (m, [])"

section \<open>The likelihood of the specification\<close>

definition sigma :: real where
  "sigma = (12 / 10 / 2) * (1 / 10)"

definition spec_likelihood :: "real \<Rightarrow> real \<Rightarrow> real \<Rightarrow> real \<Rightarrow> real \<Rightarrow> real" where
  "spec_likelihood s obs_x obs_y pred_x pred_y =
     1 / (2 * pi * s\<^sup>2) * exp (- ((obs_x - pred_x)\<^sup>2 + (obs_y - pred_y)\<^sup>2) / (2 * s\<^sup>2))"

section \<open>Closed forms of the two loops\<close>

text \<open>
  The value the second loop gives to \<^verbatim>\<open>g_posteriors[goal]\<close>, and the value the third
  loop stores into \<^verbatim>\<open>prev_prior_[goal]\<close> for a normalised posterior.
\<close>

definition post_val :: "bool \<Rightarrow> cfloat \<Rightarrow> cfloat list \<Rightarrow> ModelWrapper \<Rightarrow> nat \<Rightarrow> cfloat" where
  "post_val reset u liks m g =
     (if reset \<or> \<not> init_liks m ! g then u else fmul (liks ! g) (prev_prior m ! g))"

definition stored_prior :: "cfloat \<Rightarrow> cfloat" where
  "stored_prior b = (if fgt b (Fin (1 / 100)) then b else Fin (5 / 1000))"

section \<open>The loops compute their closed forms\<close>

lemma for_loop_append:
  "for_loop body (xs @ ys) a =
     (case for_loop body xs a of Inl e \<Rightarrow> Inl e | Inr a' \<Rightarrow> for_loop body ys a')"
  by (induction xs arbitrary: a) (auto split: sum.splits)

lemma update_at_prefix:
  "length as = k \<Longrightarrow> k < length ps \<Longrightarrow> (as @ drop k ps)[k := v] = (as @ [v]) @ drop (Suc k) ps"
  by (simp add: list_update_append Cons_nth_drop_Suc [symmetric])

lemma nth_at_prefix:
  "length as = k \<Longrightarrow> k < length ps \<Longrightarrow> (as @ drop k ps) ! k = ps ! k"
  by (simp add: nth_append)

lemma flags_prefix_same:
  "k < length xs \<Longrightarrow> xs ! k \<Longrightarrow>
     replicate k True @ drop k xs = replicate (Suc k) True @ drop (Suc k) xs"
  by (simp add: Cons_nth_drop_Suc [symmetric] replicate_append_same)

lemma posterior_prefix:
  assumes "k \<le> length (init_liks m)" "k \<le> length (prev_prior m)" "k \<le> length liks"
    "k \<le> length ps"
  shows "for_loop (posterior_body reset u liks) [0..<k] (m, ps, z) =
     Inr (m\<lparr>init_liks := replicate k True @ drop k (init_liks m)\<rparr>,
          map (post_val reset u liks m) [0..<k] @ drop k ps,
          foldl fadd z (map (post_val reset u liks m) [0..<k]))"
  using assms
proof (induction k)
  case 0
  then show ?case by simp
next
  case (Suc k)
  let ?I = "replicate k True @ drop k (init_liks m)"
  let ?P = "map (post_val reset u liks m) [0..<k] @ drop k ps"
  let ?Z = "foldl fadd z (map (post_val reset u liks m) [0..<k])"
  have a: "?I ! k = init_liks m ! k"
    using Suc.prems by (intro nth_at_prefix) auto
  have b: "?I[k := True] = replicate (Suc k) True @ drop (Suc k) (init_liks m)"
    using Suc.prems by (subst update_at_prefix) (auto simp: replicate_append_same)
  have c: "?P[k := v] = map (post_val reset u liks m) [0..<k] @ [v] @ drop (Suc k) ps" for v
    using Suc.prems by (subst update_at_prefix) auto
  have step: "posterior_body reset u liks k (m\<lparr>init_liks := ?I\<rparr>, ?P, ?Z) =
      Inr (m\<lparr>init_liks := replicate (Suc k) True @ drop (Suc k) (init_liks m)\<rparr>,
           map (post_val reset u liks m) [0..<Suc k] @ drop (Suc k) ps,
           foldl fadd z (map (post_val reset u liks m) [0..<Suc k]))"
  proof (cases "reset \<or> \<not> init_liks m ! k")
    case True
    then have "post_val reset u liks m k = u" by (simp add: post_val_def)
    with True Suc.prems show ?thesis
      unfolding posterior_body_def by (simp add: a b c del: replicate_Suc)
  next
    case False
    then have v: "post_val reset u liks m k = fmul (liks ! k) (prev_prior m ! k)"
      by (simp add: post_val_def)
    from False Suc.prems have body:
      "posterior_body reset u liks k (m\<lparr>init_liks := ?I\<rparr>, ?P, ?Z) =
         Inr (m\<lparr>init_liks := ?I\<rparr>, ?P[k := fmul (liks ! k) (prev_prior m ! k)],
              fadd ?Z (fmul (liks ! k) (prev_prior m ! k)))"
      unfolding posterior_body_def by (simp add: a Let_def)
    from False Suc.prems have "?I = replicate (Suc k) True @ drop (Suc k) (init_liks m)"
      by (intro flags_prefix_same) auto
    with v show ?thesis
      unfolding body by (simp add: c del: replicate_Suc)
  qed
  from Suc have "for_loop (posterior_body reset u liks) [0..<k] (m, ps, z) =
      Inr (m\<lparr>init_liks := ?I\<rparr>, ?P, ?Z)" by simp
  with step show ?case by (simp add: for_loop_append del: replicate_Suc)
qed

lemma normalize_prefix_zero:
  assumes "feq z (Fin 0)" "k \<le> length nps"
  shows "for_loop (normalize_body u ps z) [0..<k] (m, nps) =
     Inr (m, replicate k u @ drop k nps)"
  using assms
proof (induction k)
  case 0
  then show ?case by simp
next
  case (Suc k)
  have c: "(replicate k u @ drop k nps)[k := u] = replicate (Suc k) u @ drop (Suc k) nps"
    using Suc.prems by (subst update_at_prefix) (auto simp: replicate_append_same)
  show ?case
    using Suc by (simp add: for_loop_append normalize_body_def c)
qed

lemma normalize_prefix:
  assumes "\<not> feq z (Fin 0)" "k \<le> length nps" "k \<le> length (prev_prior m)"
  shows "for_loop (normalize_body u ps z) [0..<k] (m, nps) =
     Inr (m\<lparr>prev_prior := map (\<lambda>g. stored_prior (fdiv (ps ! g) z)) [0..<k]
                              @ drop k (prev_prior m)\<rparr>,
          map (\<lambda>g. fdiv (ps ! g) z) [0..<k] @ drop k nps)"
  using assms
proof (induction k)
  case 0
  then show ?case by simp
next
  case (Suc k)
  have c: "(map f [0..<k] @ drop k xs)[k := v] = map f [0..<k] @ [v] @ drop (Suc k) xs"
    if "k < length xs" for v :: cfloat and f xs
    using that by (subst update_at_prefix) auto
  show ?case
    using Suc by (simp add: for_loop_append normalize_body_def c stored_prior_def Let_def)
qed


lemma posterior_loop_eq:
  assumes "n \<le> length (init_liks m)" "n \<le> length (prev_prior m)" "n \<le> length liks"
  shows "posterior_loop reset n liks m =
     Inr (m\<lparr>init_liks := replicate n True @ drop n (init_liks m)\<rparr>,
          map (post_val reset (uniform_prior n) liks m) [0..<n],
          foldl fadd (Fin 0) (map (post_val reset (uniform_prior n) liks m) [0..<n]))"
  unfolding posterior_loop_def using assms by (subst posterior_prefix) auto

lemma agent_update_eq:
  assumes "n \<le> length (init_liks m)" "n \<le> length (prev_prior m)" "n \<le> length liks"
    and "u = uniform_prior n"
    and "P = map (post_val reset u liks m) [0..<n]"
    and "Z = foldl fadd (Fin 0) P"
  shows "agent_update reset n liks m =
     (if feq Z (Fin 0)
      then Inr (m\<lparr>init_liks := replicate n True @ drop n (init_liks m)\<rparr>, replicate n u)
      else Inr (m\<lparr>init_liks := replicate n True @ drop n (init_liks m),
                   prev_prior := map (\<lambda>g. stored_prior (fdiv (P ! g) Z)) [0..<n]
                                   @ drop n (prev_prior m)\<rparr>,
                map (\<lambda>g. fdiv (P ! g) Z) [0..<n]))"
proof (cases "feq Z (Fin 0)")
  case True
  with assms show ?thesis
    unfolding agent_update_def
    by (simp add: posterior_loop_eq Let_def normalize_prefix_zero)
next
  case False
  with assms show ?thesis
    unfolding agent_update_def
    by (simp add: posterior_loop_eq Let_def normalize_prefix)
qed

lemma posterior_loop_out_of_bounds:
  assumes "length (init_liks m) < n" "length (init_liks m) \<le> length (prev_prior m)"
    "length (init_liks m) \<le> length liks"
  shows "posterior_loop reset n liks m = Inl OutOfBounds"
proof -
  let ?l = "length (init_liks m)"
  have "[0..<?l + (n - ?l)] = [0..<?l] @ [?l..<?l + (n - ?l)]"
    by (rule upt_add_eq_append) simp
  moreover have "[?l..<n] = ?l # [Suc ?l..<n]"
    using assms(1) by (rule upt_conv_Cons)
  ultimately have "[0..<n] = [0..<?l] @ ?l # [Suc ?l..<n]"
    using assms(1) by simp
  then show ?thesis
    unfolding posterior_loop_def using assms
    by (simp add: for_loop_append posterior_prefix posterior_body_def)
qed


section \<open>Values inside the range\<close>

lemma flt_overflow_value: "flt_overflow = 340282356779733661637539395458142568448"
  by (simp add: flt_overflow_def)

lemma overflow_in_range: "\<bar>r\<bar> < flt_overflow \<Longrightarrow> overflow r = Fin r"
  by (auto simp: overflow_def)

lemma overflow_small: "\<bar>r\<bar> \<le> 1000 \<Longrightarrow> overflow r = Fin r"
  by (rule overflow_in_range) (simp add: flt_overflow_value)

lemma overflow_nonneg_small: "0 \<le> r \<Longrightarrow> r \<le> 1000 \<Longrightarrow> overflow r = Fin r"
  by (rule overflow_small) simp

lemma overflow_nonneg: "0 \<le> r \<Longrightarrow> overflow r = (if flt_overflow \<le> r then PInf else Fin r)"
  by (auto simp: overflow_def flt_overflow_value)

lemma foldl_fadd_Fin:
  assumes "0 \<le> z" and "\<forall>x\<in>set xs. 0 \<le> x" and "z + sum_list xs \<le> 1000"
  shows "foldl fadd (Fin z) (map Fin xs) = Fin (z + sum_list xs)"
  using assms
proof (induction xs arbitrary: z)
  case Nil
  then show ?case by simp
next
  case (Cons x xs)
  have "0 \<le> sum_list xs" using Cons.prems(2) by (intro sum_list_nonneg) simp
  with Cons.prems have "\<bar>z + x\<bar> \<le> 1000" by simp
  then have "fadd (Fin z) (Fin x) = Fin (z + x)" by (simp add: overflow_small)
  with Cons show ?case by (simp add: add.assoc)
qed

lemma uniform_prior_pos: "0 < n \<Longrightarrow> uniform_prior n = Fin (1 / real n)"
proof -
  assume "0 < n"
  then have "\<bar>1 / real n\<bar> \<le> 1000" by (simp add: field_simps)
  with \<open>0 < n\<close> show ?thesis by (simp add: uniform_prior_def overflow_small)
qed

lemma exp_minus_bound: "0 \<le> x \<Longrightarrow> exp (- x) \<le> 1 / (1 + x)" for x :: real
proof -
  assume "0 \<le> x"
  then have "1 + x \<le> exp x" by (rule exp_ge_add_one_self_aux)
  with \<open>0 \<le> x\<close> have "1 / exp x \<le> 1 / (1 + x)"
    by (intro divide_left_mono) (auto intro: mult_pos_pos add_pos_nonneg)
  then show ?thesis by (simp add: exp_minus inverse_eq_divide)
qed

lemma exp_underflow: "114 \<le> t \<Longrightarrow> exp (- t) \<le> 1 / 2 ^ 150" for t :: real
proof -
  assume t: "114 \<le> t"
  have "(5 / 2 :: real) \<le> exp 1"
    using exp_lower_Taylor_quadratic [of "1::real"] by simp
  then have "(5 / 2 :: real) ^ 114 \<le> exp 1 ^ 114" by (intro power_mono) simp_all
  also have "\<dots> = exp (real 114 * 1)" by (rule exp_of_nat_mult [symmetric])
  also have "\<dots> \<le> exp t" using t by simp
  finally have "(5 / 2 :: real) ^ 114 \<le> exp t" .
  moreover have "(2 :: real) ^ 150 \<le> (5 / 2) ^ 114" by (simp add: power_divide)
  ultimately have "(2 :: real) ^ 150 \<le> exp t" by (rule order_trans [rotated])
  then have "1 / exp t \<le> 1 / 2 ^ 150"
    by (intro divide_left_mono) simp_all
  then show ?thesis by (simp add: exp_minus inverse_eq_divide)
qed

lemma spec_likelihood_pos: "0 < s \<Longrightarrow> 0 < spec_likelihood s a b c d"
  by (simp add: spec_likelihood_def)

lemma is_finite_iff: "is_finite v \<longleftrightarrow> (\<exists>r. v = Fin r)"
  by (cases v) simp_all

section \<open>The likelihood of finite velocities\<close>

lemma overflow_zero [simp]: "overflow 0 = Fin 0"
  by (simp add: overflow_small)

lemma std_dev: "fmul (fdiv max_acc (Fin 2)) ros_freq = Fin (6 / 100)"
  by (simp add: max_acc_def ros_freq_def overflow_small)

lemma variance: "pow2 (Fin (6 / 100)) = Fin (9 / 2500)" "fmul (Fin (6 / 100)) (Fin (6 / 100)) = Fin (9 / 2500)"
  by (simp_all add: pow2_def overflow_small)

lemma no_correlation: "fsub (Fin 1) (pow2 (Fin 0)) = Fin 1"
  by (simp add: pow2_def fsub_def overflow_small)

lemma exponent_factor: "fneg (fdiv (Fin 1) (fmul (Fin 2) (fsub (Fin 1) (pow2 (Fin 0))))) = Fin (- (1 / 2))"
  by (simp add: no_correlation overflow_small)

lemma density_factor:
  "fdiv (Fin 1)
     (fmul (fmul (fmul (fmul (Fin 2) PI) (Fin (6 / 100))) (Fin (6 / 100)))
        (fsqrt (fsub (Fin 1) (pow2 (Fin 0)))))
   = Fin (1 / (2 * pi * (6 / 100)\<^sup>2))"
    "0 < 1 / (2 * pi * (6 / 100)\<^sup>2)" "1 / (2 * pi * (6 / 100)\<^sup>2) \<le> (70::real)"
proof -
  have pi: "2 \<le> pi" "pi < 4" using pi_ge_two pi_less_4 by simp_all
  have a: "fmul (Fin 2) PI = Fin (2 * pi)"
    using pi by (simp add: PI_def overflow_small)
  have b: "fmul (Fin (2 * pi)) (Fin (6 / 100)) = Fin (2 * pi * (6 / 100))"
    using pi by (simp add: overflow_small)
  have c: "fmul (Fin (2 * pi * (6 / 100))) (Fin (6 / 100)) = Fin (2 * pi * (6 / 100) * (6 / 100))"
    using pi by (simp add: overflow_small)
  have d: "fmul (Fin (2 * pi * (6 / 100) * (6 / 100))) (fsqrt (Fin 1))
      = Fin (2 * pi * (6 / 100) * (6 / 100))"
    using pi by (simp add: overflow_small)
  have pos: "0 < 2 * pi * (6 / 100) * (6 / 100)" using pi by simp
  have small: "1 / (2 * pi * (6 / 100) * (6 / 100)) \<le> 70"
    using pi by (simp add: field_simps)
  then have e: "fdiv (Fin 1) (Fin (2 * pi * (6 / 100) * (6 / 100)))
      = Fin (1 / (2 * pi * (6 / 100) * (6 / 100)))"
    using pos by (simp add: overflow_small)
  have sq: "2 * pi * (6 / 100)\<^sup>2 = 2 * pi * (6 / 100) * (6 / 100)"
    by (simp add: power2_eq_square)
  show "fdiv (Fin 1)
     (fmul (fmul (fmul (fmul (Fin 2) PI) (Fin (6 / 100))) (Fin (6 / 100)))
        (fsqrt (fsub (Fin 1) (pow2 (Fin 0)))))
   = Fin (1 / (2 * pi * (6 / 100)\<^sup>2))"
    by (simp only: no_correlation a b c d e sq)
  show "0 < 1 / (2 * pi * (6 / 100)\<^sup>2)" using pos by (simp only: sq) simp
  show "1 / (2 * pi * (6 / 100)\<^sup>2) \<le> (70::real)" using small by (simp only: sq)
qed

lemma squared_difference:
  assumes "\<bar>x - u\<bar> < flt_overflow"
  shows "fdiv (pow2 (fsub (Fin x) (Fin u))) (Fin (9 / 2500)) = overflow ((x - u)\<^sup>2 / (9 / 2500))"
proof -
  have dx: "fsub (Fin x) (Fin u) = Fin (x - u)"
    using assms by (simp add: fsub_def overflow_in_range)
  have sq: "pow2 (Fin (x - u)) = overflow ((x - u)\<^sup>2)"
    by (simp add: pow2_def power2_eq_square)
  have nn: "0 \<le> (x - u)\<^sup>2" by simp
  show ?thesis
  proof (cases "flt_overflow \<le> (x - u)\<^sup>2")
    case True
    then have "flt_overflow \<le> (x - u)\<^sup>2 / (9 / 2500)"
      by (simp add: field_simps flt_overflow_value)
    with True show ?thesis
      unfolding dx sq by (simp add: overflow_def)
  next
    case False
    with nn have "overflow ((x - u)\<^sup>2) = Fin ((x - u)\<^sup>2)"
      by (simp add: overflow_nonneg)
    then show ?thesis unfolding dx sq by simp
  qed
qed

lemma cross_term:
  assumes "\<bar>x - u\<bar> < flt_overflow" and "\<bar>y - v\<bar> < flt_overflow"
  shows "fdiv (fmul (fmul (fmul (Fin 2) (Fin 0)) (fsub (Fin x) (Fin u))) (fsub (Fin y) (Fin v)))
           (Fin (9 / 2500)) = Fin 0"
  using assms by (simp add: fsub_def overflow_in_range)

lemma exponential:
  assumes "0 \<le> u1" and "0 \<le> u2"
  shows "fexp (fmul (Fin (- (1 / 2))) (fsub (fadd (overflow u1) (overflow u2)) (Fin 0)))
    = (if exp (- ((u1 + u2) / 2)) \<le> 1 / 2 ^ 150 then Fin 0 else Fin (exp (- ((u1 + u2) / 2))))"
proof (cases "flt_overflow \<le> u1 + u2")
  case True
  have "fadd (overflow u1) (overflow u2) = PInf"
    using assms True by (auto simp: overflow_nonneg overflow_def)
  moreover have "114 \<le> (u1 + u2) / 2"
    using True by (simp add: flt_overflow_value)
  then have "exp (- ((u1 + u2) / 2)) \<le> 1 / 2 ^ 150" by (rule exp_underflow)
  ultimately show ?thesis by (simp add: fsub_def)
next
  case False
  then have "fadd (overflow u1) (overflow u2) = Fin (u1 + u2)"
    using assms by (auto simp: overflow_nonneg)
  moreover have "fsub (Fin (u1 + u2)) (Fin 0) = Fin (u1 + u2)"
    using False assms by (simp add: fsub_def overflow_nonneg)
  moreover have "fmul (Fin (- (1 / 2))) (Fin (u1 + u2)) = Fin (- ((u1 + u2) / 2))"
    using False assms by (simp add: overflow_in_range)
  moreover have "exp (- ((u1 + u2) / 2)) \<le> 1"
    using assms by simp
  then have "\<not> flt_overflow \<le> exp (- ((u1 + u2) / 2))"
    unfolding flt_overflow_value by linarith
  ultimately show ?thesis by simp
qed

lemma goal_likelihood_finite:
  assumes "\<bar>pred_x - obs_x\<bar> < flt_overflow" and "\<bar>pred_y - obs_y\<bar> < flt_overflow"
  shows "goal_likelihood \<lparr>vx = Fin obs_x, vy = Fin obs_y\<rparr> \<lparr>vx = Fin pred_x, vy = Fin pred_y\<rparr>
    = (if exp (- (((obs_x - pred_x)\<^sup>2 + (obs_y - pred_y)\<^sup>2) / (2 * sigma\<^sup>2))) \<le> 1 / 2 ^ 150
       then Fin 0
       else Fin (spec_likelihood sigma obs_x obs_y pred_x pred_y))"
proof -
  define u1 where "u1 = (pred_x - obs_x)\<^sup>2 / (9 / 2500)"
  define u2 where "u2 = (pred_y - obs_y)\<^sup>2 / (9 / 2500)"
  define pc :: real where "pc = 1 / (2 * pi * (6 / 100)\<^sup>2)"
  have nn: "0 \<le> u1" "0 \<le> u2" by (simp_all add: u1_def u2_def)
  have q: "((obs_x - pred_x)\<^sup>2 + (obs_y - pred_y)\<^sup>2) / (2 * sigma\<^sup>2) = (u1 + u2) / 2"
    by (simp add: u1_def u2_def sigma_def power2_eq_square field_simps)
  have pc: "0 < pc" "pc \<le> 70" unfolding pc_def by (rule density_factor(2,3))+
  have spec: "spec_likelihood sigma obs_x obs_y pred_x pred_y = pc * exp (- ((u1 + u2) / 2))"
    unfolding spec_likelihood_def q [symmetric] pc_def
    by (simp add: sigma_def minus_divide_left)
  have "goal_likelihood \<lparr>vx = Fin obs_x, vy = Fin obs_y\<rparr> \<lparr>vx = Fin pred_x, vy = Fin pred_y\<rparr>
      = fmul (Fin pc)
          (if exp (- ((u1 + u2) / 2)) \<le> 1 / 2 ^ 150 then Fin 0
           else Fin (exp (- ((u1 + u2) / 2))))"
    unfolding goal_likelihood_def Let_def
    by (simp only: Vector2.select_convs std_dev variance exponent_factor density_factor(1)
        squared_difference [OF assms(1)] squared_difference [OF assms(2)]
        cross_term [OF assms] exponential [OF nn] u1_def [symmetric] u2_def [symmetric]
        pc_def [symmetric])
  also have "\<dots> = (if exp (- ((u1 + u2) / 2)) \<le> 1 / 2 ^ 150 then Fin 0
       else Fin (pc * exp (- ((u1 + u2) / 2))))"
  proof -
    have "\<bar>pc * exp (- ((u1 + u2) / 2))\<bar> \<le> 1000"
    proof -
      have "pc * exp (- ((u1 + u2) / 2)) \<le> pc * 1"
        using pc nn by (intro mult_left_mono) simp_all
      moreover have "0 \<le> pc * exp (- ((u1 + u2) / 2))"
        using pc by simp
      ultimately show ?thesis using pc by linarith
    qed
    then show ?thesis by (simp add: overflow_small)
  qed
  finally show ?thesis by (simp only: q spec)
qed

section \<open>Values that are not finite\<close>

lemma fadd_NaN [simp]: "fadd a NaN = NaN"
  by (cases a) simp_all

lemma fmul_NaN [simp]: "fmul a NaN = NaN"
  by (cases a) simp_all

lemma fdiv_NaN [simp]: "fdiv a NaN = NaN"
  by (cases a) simp_all

lemma fsub_NaN [simp]: "fsub a NaN = NaN"
  by (simp add: fsub_def)

lemma fsub_not_finite: "\<not> (is_finite a \<and> is_finite b) \<Longrightarrow> \<not> is_finite (fsub a b)"
  by (cases a; cases b) (simp_all add: fsub_def)

lemma cross_term_nan:
  "\<not> (is_finite dx \<and> is_finite dy) \<Longrightarrow> fmul (fmul (fmul (Fin 2) (Fin 0)) dx) dy = NaN"
  by (cases dx; cases dy) simp_all

lemma goal_likelihood_not_finite:
  assumes "\<not> (is_finite (fsub (vx sim_vel) (vx curr_vel))
             \<and> is_finite (fsub (vy sim_vel) (vy curr_vel)))"
  shows "goal_likelihood curr_vel sim_vel = NaN"
  unfolding goal_likelihood_def Let_def
  by (simp only: cross_term_nan [OF assms] fdiv.simps fsub_NaN fmul_NaN fexp.simps)

lemma goal_likelihood_nan:
  assumes "\<not> (is_finite (vx curr_vel) \<and> is_finite (vy curr_vel)
             \<and> is_finite (vx sim_vel) \<and> is_finite (vy sim_vel))"
  shows "goal_likelihood curr_vel sim_vel = NaN"
proof (rule goal_likelihood_not_finite)
  from assms have "\<not> (is_finite (vx sim_vel) \<and> is_finite (vx curr_vel))
      \<or> \<not> (is_finite (vy sim_vel) \<and> is_finite (vy curr_vel))"
    by blast
  then show "\<not> (is_finite (fsub (vx sim_vel) (vx curr_vel))
             \<and> is_finite (fsub (vy sim_vel) (vy curr_vel)))"
    using fsub_not_finite by blast
qed

lemma goal_likelihood_overflow:
  assumes "flt_overflow \<le> \<bar>pred_x - obs_x\<bar> \<or> flt_overflow \<le> \<bar>pred_y - obs_y\<bar>"
  shows "goal_likelihood \<lparr>vx = Fin obs_x, vy = Fin obs_y\<rparr> \<lparr>vx = Fin pred_x, vy = Fin pred_y\<rparr>
    = NaN"
proof (rule goal_likelihood_not_finite)
  have "\<not> is_finite (fsub (Fin x) (Fin u))" if "flt_overflow \<le> \<bar>x - u\<bar>" for x u
    using that by (auto simp: fsub_def overflow_def abs_if split: if_splits)
  with assms show "\<not> (is_finite (fsub (vx \<lparr>vx = Fin pred_x, vy = Fin pred_y\<rparr>)
                            (vx \<lparr>vx = Fin obs_x, vy = Fin obs_y\<rparr>))
             \<and> is_finite (fsub (vy \<lparr>vx = Fin pred_x, vy = Fin pred_y\<rparr>)
                            (vy \<lparr>vx = Fin obs_x, vy = Fin obs_y\<rparr>)))"
    by auto
qed

lemma foldl_fadd_NaN: "foldl fadd NaN xs = NaN"
  by (induction xs) simp_all

lemma foldl_fadd_has_NaN: "NaN \<in> set xs \<Longrightarrow> foldl fadd z xs = NaN"
  by (induction xs arbitrary: z) (auto simp: foldl_fadd_NaN)

section \<open>The update on values inside the range\<close>

lemma goal_likelihood_range:
  assumes "\<bar>pred_x - obs_x\<bar> < flt_overflow" and "\<bar>pred_y - obs_y\<bar> < flt_overflow"
  shows "\<exists>l. goal_likelihood \<lparr>vx = Fin obs_x, vy = Fin obs_y\<rparr>
                \<lparr>vx = Fin pred_x, vy = Fin pred_y\<rparr> = Fin l \<and> 0 \<le> l \<and> l \<le> 70"
proof -
  let ?q = "((obs_x - pred_x)\<^sup>2 + (obs_y - pred_y)\<^sup>2) / (2 * sigma\<^sup>2)"
  have "0 \<le> ?q" by (intro divide_nonneg_nonneg) simp_all
  then have "exp (- ?q) \<le> 1" by simp
  then have "1 / (2 * pi * sigma\<^sup>2) * exp (- ?q) \<le> 1 / (2 * pi * sigma\<^sup>2) * 1"
    by (intro mult_left_mono) simp_all
  with density_factor(3) have "spec_likelihood sigma obs_x obs_y pred_x pred_y \<le> 70"
    by (simp add: spec_likelihood_def sigma_def minus_divide_left)
  moreover have "0 \<le> spec_likelihood sigma obs_x obs_y pred_x pred_y"
    using spec_likelihood_pos [of sigma] by (simp add: sigma_def less_imp_le)
  ultimately show ?thesis
    unfolding goal_likelihood_finite [OF assms] by auto
qed

lemma sum_list_bounded:
  fixes xs :: "real list"
  assumes "\<forall>x\<in>set xs. x \<le> c"
  shows "sum_list xs \<le> c * real (length xs)"
  using assms by (induction xs) (auto simp: algebra_simps)

lemma member_le_sum_list_real:
  fixes xs :: "real list"
  assumes "\<forall>x\<in>set xs. 0 \<le> x" and "y \<in> set xs"
  shows "y \<le> sum_list xs"
  using assms
proof (induction xs)
  case Nil
  then show ?case by simp
next
  case (Cons x xs)
  have "0 \<le> sum_list xs" using Cons.prems(1) by (intro sum_list_nonneg) simp
  with Cons show ?case by auto
qed

lemma finite_list:
  "(\<forall>l\<in>set ls. \<exists>r. l = Fin r \<and> 0 \<le> r \<and> r \<le> c)
     \<Longrightarrow> \<exists>rs. ls = map Fin rs \<and> (\<forall>r\<in>set rs. 0 \<le> r \<and> r \<le> c)"
proof (induction ls)
  case Nil
  then show ?case by simp
next
  case (Cons l ls)
  then obtain rs r where "ls = map Fin rs" "\<forall>r\<in>set rs. 0 \<le> r \<and> r \<le> c" "l = Fin r"
      "0 \<le> r" "r \<le> c"
    by auto
  then show ?case by (intro exI [of _ "r # rs"]) simp
qed

lemma agent_update_normalised:
  assumes n: "0 < n" "n \<le> 3" "n \<le> length (init_liks m)" "n \<le> length (prev_prior m)"
    and liks: "g_likelihoods = map Fin ls" "length ls = n" "\<forall>l\<in>set ls. 0 \<le> l \<and> l \<le> 70"
    and priors: "prev_prior m = map Fin priors" "\<forall>p\<in>set priors. 0 \<le> p \<and> p \<le> 1"
  shows "\<exists>m' bs priors'.
      agent_update reset n g_likelihoods m = Inr (m', map Fin bs)
      \<and> length bs = n \<and> sum_list bs = 1 \<and> (\<forall>b\<in>set bs. 0 \<le> b)
      \<and> prev_prior m' = map Fin priors' \<and> (\<forall>p\<in>set priors'. 0 \<le> p \<and> p \<le> 1)"
proof -
  let ?u = "Fin (1 / real n)"
  define Pr where "Pr = map (\<lambda>g. if reset \<or> \<not> init_liks m ! g then 1 / real n
                                  else ls ! g * priors ! g) [0..<n]"
  let ?P = "map (post_val reset ?u g_likelihoods m) [0..<n]"
  have len: "n \<le> length priors" using n priors by simp
  have gl_len: "n \<le> length g_likelihoods" using liks by simp
  have prod: "0 \<le> ls ! g * priors ! g \<and> ls ! g * priors ! g \<le> 70" if "g < n" for g
  proof -
    from that liks len priors(2) have l: "0 \<le> ls ! g" "ls ! g \<le> 70"
      and p: "0 \<le> priors ! g" "priors ! g \<le> 1"
      by simp_all
    have "ls ! g * priors ! g \<le> 70 * 1"
      using l p by (intro mult_mono) simp_all
    with l p show ?thesis by simp
  qed
  have unif: "0 \<le> 1 / real n \<and> 1 / real n \<le> 70"
    using n(1) by (simp add: field_simps)
  have P: "?P = map Fin Pr"
  proof -
    have "fmul (g_likelihoods ! g) (prev_prior m ! g) = Fin (ls ! g * priors ! g)"
      if "g < n" for g
      using that prod [OF that] liks len priors(1) by (simp add: overflow_small)
    then show ?thesis by (auto simp: post_val_def Pr_def)
  qed
  have Pr_range: "0 \<le> x \<and> x \<le> 70" if "x \<in> set Pr" for x
    using that prod unif by (auto simp: Pr_def)
  have Pr_len: "length Pr = n" by (simp add: Pr_def)
  define S where "S = sum_list Pr"
  have S_nonneg: "0 \<le> S"
    unfolding S_def using Pr_range by (intro sum_list_nonneg) auto
  have "S \<le> 70 * real (length Pr)"
    unfolding S_def using Pr_range by (intro sum_list_bounded) auto
  with n(2) Pr_len have S_small: "S \<le> 1000" by simp
  have Z: "foldl fadd (Fin 0) ?P = Fin S"
    unfolding P using Pr_range S_small
    by (subst foldl_fadd_Fin) (auto simp: S_def)
  note upd = agent_update_eq [where u = ?u and P = ?P and Z = "Fin S" and reset = reset,
      OF n(3,4) _ _ refl]
  show ?thesis
  proof (cases "S = 0")
    case True
    have "agent_update reset n g_likelihoods m =
        Inr (m\<lparr>init_liks := replicate n True @ drop n (init_liks m)\<rparr>,
             map Fin (replicate n (1 / real n)))"
      using True gl_len n by (subst upd) (simp_all add: Z uniform_prior_pos)
    then show ?thesis
      using n(1) priors
      by (intro exI [of _ "m\<lparr>init_liks := replicate n True @ drop n (init_liks m)\<rparr>"]
          exI [of _ "replicate n (1 / real n)"] exI [of _ priors])
        (simp add: sum_list_replicate)
  next
    case False
    define bs where "bs = map (\<lambda>g. Pr ! g / S) [0..<n]"
    define priors' where
      "priors' = map (\<lambda>b. if 1 / 100 < b then b else 5 / 1000) bs @ drop n priors"
    have ratio: "0 \<le> Pr ! g / S \<and> Pr ! g / S \<le> 1" if "g < n" for g
    proof -
      from that Pr_len have mem: "Pr ! g \<in> set Pr" by simp
      then have "Pr ! g \<le> S"
        unfolding S_def using Pr_range by (intro member_le_sum_list_real) auto
      with Pr_range [OF mem] S_nonneg False show ?thesis by simp
    qed
    have quot: "fdiv (Fin (Pr ! g)) (Fin S) = Fin (Pr ! g / S)" if "g < n" for g
      using ratio [OF that] False by (simp add: overflow_nonneg_small)
    have beliefs: "map (\<lambda>g. fdiv (?P ! g) (Fin S)) [0..<n] = map Fin bs"
      unfolding P bs_def using quot Pr_len by simp
    have stored: "map (\<lambda>g. stored_prior (fdiv (?P ! g) (Fin S))) [0..<n] @ drop n (prev_prior m)
        = map Fin priors'"
      unfolding P bs_def priors'_def priors(1) using quot Pr_len
      by (simp add: stored_prior_def drop_map)
    have "agent_update reset n g_likelihoods m =
        Inr (m\<lparr>init_liks := replicate n True @ drop n (init_liks m),
               prev_prior := map Fin priors'\<rparr>, map Fin bs)"
      using False gl_len n by (subst upd) (simp_all add: Z uniform_prior_pos beliefs stored)
    moreover have "sum_list bs = 1"
    proof -
      have "sum_list bs = sum_list (map (\<lambda>g. Pr ! g) [0..<length Pr]) / S"
        unfolding bs_def Pr_len
        by (simp add: divide_inverse sum_list_mult_const [symmetric] o_def)
      then show ?thesis using False by (simp add: map_nth S_def)
    qed
    moreover have bs_range: "\<forall>b\<in>set bs. 0 \<le> b \<and> b \<le> 1"
      unfolding bs_def using ratio by auto
    moreover have "\<forall>p\<in>set priors'. 0 \<le> p \<and> p \<le> 1"
      unfolding priors'_def using bs_range priors(2) by (auto dest: in_set_dropD)
    moreover have "length bs = n" by (simp add: bs_def)
    ultimately show ?thesis
      by (intro exI [of _ "m\<lparr>init_liks := replicate n True @ drop n (init_liks m),
            prev_prior := map Fin priors'\<rparr>"] exI [of _ bs] exI [of _ priors']) simp
  qed
qed

section \<open>One agent and the loop over the agents\<close>

lemma bayes_update_initialised:
  assumes "n \<le> length (init_liks m)" and "n \<le> length (prev_prior m)"
    and "length g_likelihoods = n"
    and "\<forall>g<n. init_liks m ! g"
    and "Z = foldl fadd (Fin 0) (map (\<lambda>g. fmul (g_likelihoods ! g) (prev_prior m ! g)) [0..<n])"
    and "\<not> feq Z (Fin 0)"
  shows "\<exists>m' belief. agent_update reset_priors n g_likelihoods m = Inr (m', belief)
           \<and> length belief = n
           \<and> (\<forall>g<n. belief ! g = fdiv (fmul (g_likelihoods ! g) (prev_prior m ! g)) Z)"
proof -
  let ?u = "uniform_prior n"
  let ?P = "map (post_val reset_priors ?u g_likelihoods m) [0..<n]"
  have P: "?P = map (\<lambda>g. fmul (g_likelihoods ! g) (prev_prior m ! g)) [0..<n]"
    using assms(4) by (simp add: post_val_def reset_priors_def)
  have "agent_update reset_priors n g_likelihoods m =
      Inr (m\<lparr>init_liks := replicate n True @ drop n (init_liks m),
             prev_prior := map (\<lambda>g. stored_prior (fdiv (?P ! g) Z)) [0..<n]
                             @ drop n (prev_prior m)\<rparr>,
           map (\<lambda>g. fdiv (?P ! g) Z) [0..<n])"
    using assms by (subst agent_update_eq [where u = ?u and P = ?P and Z = Z]) (simp_all add: P)
  then show ?thesis by (simp add: P)
qed

lemma agent_update_total:
  assumes "n \<le> length (init_liks m)" "n \<le> length (prev_prior m)" "n \<le> length liks"
  shows "\<exists>m' b. agent_update reset n liks m = Inr (m', b) \<and> length b = n
           \<and> length (init_liks m') = length (init_liks m)
           \<and> length (prev_prior m') = length (prev_prior m)"
  using assms by (subst agent_update_eq [OF assms refl refl refl]) auto

lemma infer_agent_three:
  assumes "length (init_liks m) = 3" "length (prev_prior m) = 3"
    and "(agent + 1) * 3 \<le> length sims"
  shows "\<exists>m' b. infer_agent curr_vel 3 sims agent m = Inr (m', b) \<and> length b = 3
           \<and> length (init_liks m') = 3 \<and> length (prev_prior m') = 3"
proof -
  let ?liks = "map (goal_likelihood curr_vel) (take 3 (drop (agent * 3) sims))"
  have "length ?liks = 3" using assms(3) by simp
  then obtain m' b where "agent_update reset_priors 3 ?liks m = Inr (m', b)" "length b = 3"
      "length (init_liks m') = 3" "length (prev_prior m') = 3"
    using agent_update_total [of 3 m ?liks reset_priors] assms(1,2) by auto
  then show ?thesis
    using assms(3) by (simp add: infer_agent_def Let_def)
qed

lemma infer_agent_not_three:
  assumes "length (init_liks m) = 3" "length (prev_prior m) = 3"
    and "(agent + 1) * n \<le> length sims" and "n \<noteq> 3"
  shows "infer_agent curr_vel n sims agent m = Inl OutOfBounds"
proof (cases "n < 3")
  case True
  let ?liks = "map (goal_likelihood curr_vel) (take n (drop (agent * n) sims))"
  have "length ?liks = n" using assms(3) by simp
  then obtain m' b where "agent_update reset_priors n ?liks m = Inr (m', b)" "length b = n"
    using agent_update_total [of n m ?liks reset_priors] assms(1,2) True by auto
  then show ?thesis
    using assms(3) True by (simp add: infer_agent_def Let_def)
next
  case False
  let ?liks = "map (goal_likelihood curr_vel) (take n (drop (agent * n) sims))"
  have len: "length ?liks = n" using assms(3) by simp
  have "posterior_loop reset_priors n ?liks m = Inl OutOfBounds"
    using assms False len by (intro posterior_loop_out_of_bounds) auto
  then show ?thesis
    using assms(3) by (simp add: infer_agent_def agent_update_def Let_def)
qed

lemma agents_loop_three:
  assumes "length (init_liks m) = 3" "length (prev_prior m) = 3"
    and "k * 3 \<le> length sims"
  shows "\<exists>m' out'. for_loop (agents_body curr_vel 3 sims) [0..<k] (m, out) = Inr (m', out')
           \<and> length (init_liks m') = 3 \<and> length (prev_prior m') = 3"
  using assms(3)
proof (induction k)
  case 0
  with assms show ?case by simp
next
  case (Suc k)
  then obtain m1 out1 where loop:
      "for_loop (agents_body curr_vel 3 sims) [0..<k] (m, out) = Inr (m1, out1)"
      "length (init_liks m1) = 3" "length (prev_prior m1) = 3"
    by auto
  from Suc.prems obtain m' b where "infer_agent curr_vel 3 sims k m1 = Inr (m', b)"
      "length (init_liks m') = 3" "length (prev_prior m') = 3"
    using infer_agent_three [OF loop(2,3), of k sims curr_vel] by auto
  then have "agents_body curr_vel 3 sims k (m1, out1) = Inr (m', out1 @ [b])"
      "length (init_liks m') = 3" "length (prev_prior m') = 3"
    by (simp_all add: agents_body_def)
  with loop(1) show ?case
    by (simp add: for_loop_append)
qed

lemma slice_of_prefix:
  assumes "i * n + n \<le> k"
  shows "take n (drop (i * n) (take k xs)) = take n (drop (i * n) xs)"
  using assms by (simp add: drop_take min_def)

lemma infer_agent_prefix:
  assumes "take ((a + 1) * n) sims1 = take ((a + 1) * n) sims2" and "i \<le> a"
  shows "infer_agent curr_vel n sims1 i m = infer_agent curr_vel n sims2 i m"
proof -
  define k where "k = (a + 1) * n"
  define j where "j = i * n + n"
  have "(i + 1) * n \<le> (a + 1) * n"
    using assms(2) by (intro mult_le_mono1) simp
  then have le: "j \<le> k" by (simp add: j_def k_def)
  have "length (take k sims1) = length (take k sims2)"
    using assms(1) by (simp only: k_def)
  then have "min (length sims1) k = min (length sims2) k"
    by (simp only: length_take)
  with le have short: "length sims1 < j \<longleftrightarrow> length sims2 < j"
    by linarith
  have "take n (drop (i * n) sims1) = take n (drop (i * n) (take k sims1))"
    using le unfolding j_def by (rule slice_of_prefix [symmetric])
  also have "\<dots> = take n (drop (i * n) (take k sims2))"
    using assms(1) by (simp only: k_def)
  also have "\<dots> = take n (drop (i * n) sims2)"
    using le unfolding j_def by (rule slice_of_prefix)
  finally show ?thesis
    using short by (simp add: infer_agent_def Let_def j_def)
qed

lemma agents_loop_prefix:
  assumes "take ((a + 1) * n) sims1 = take ((a + 1) * n) sims2" and "\<forall>i\<in>set is. i \<le> a"
  shows "for_loop (agents_body curr_vel n sims1) is s = for_loop (agents_body curr_vel n sims2) is s"
  using assms(2)
proof (induction "is" arbitrary: s)
  case Nil
  then show ?case by simp
next
  case (Cons i "is")
  have "agents_body curr_vel n sims1 i s = agents_body curr_vel n sims2 i s"
    using Cons.prems infer_agent_prefix [OF assms(1), of i]
    by (cases s) (simp add: agents_body_def)
  with Cons show ?case by (simp split: sum.splits)
qed

lemma agents_loop_output:
  assumes "for_loop (agents_body curr_vel n sims) is (m, out) = Inr (m', out')"
  shows "\<exists>ys. out' = out @ ys \<and> length ys = length is"
  using assms
proof (induction "is" arbitrary: m out)
  case Nil
  then show ?case by simp
next
  case (Cons i "is")
  show ?case
  proof (cases "infer_agent curr_vel n sims i m")
    case (Inl e)
    then have "agents_body curr_vel n sims i (m, out) = Inl e"
      by (simp add: agents_body_def)
    with Cons.prems show ?thesis by simp
  next
    case (Inr r)
    obtain m1 b where "r = (m1, b)" by (cases r)
    with Inr have "agents_body curr_vel n sims i (m, out) = Inr (m1, out @ [b])"
      by (simp add: agents_body_def)
    with Cons.prems have
      "for_loop (agents_body curr_vel n sims) is (m1, out @ [b]) = Inr (m', out')"
      by simp
    from Cons.IH [OF this] show ?thesis by auto
  qed
qed

section \<open>Claims\<close>

text \<open>
  The theorems about one agent's update assume \<open>n \<le> length (init_liks m)\<close> and
  \<open>n \<le> length (prev_prior m)\<close>: the state vectors, of length 3 since
  \<^verbatim>\<open>ModelWrapper::init\<close>, have an entry for every goal. With more goals the source indexes
  them past their end (see C10). Where a theorem takes the likelihoods as a vector, they
  are any \<open>n\<close> values: what \<^verbatim>\<open>float\<close> arithmetic made of them is covered.
\<close>

subsection \<open>The likelihood\<close>

text \<open>
  C2 does not hold for every finite input. For the observed \<open>x = 3e38\<close> and the predicted
  \<open>x = -3e38\<close>, both finite floats, the difference overflows to \<open>-\<infinity>\<close>, the cross term
  \<open>2 * corr * (x - ux)\<close> is \<open>0 * \<infinity> = NaN\<close>, and the likelihood is NaN. For the observed
  \<open>(0, 0)\<close> and the predicted \<open>(1, 0)\<close> the exponential underflows and the likelihood is
  \<open>0\<close>, where the density is positive.
\<close>

theorem likelihood_counterexample:
  "goal_likelihood \<lparr>vx = Fin (3 * 10 ^ 38), vy = Fin 0\<rparr> \<lparr>vx = Fin (- (3 * 10 ^ 38)), vy = Fin 0\<rparr>
     = NaN
   \<and> goal_likelihood \<lparr>vx = Fin 0, vy = Fin 0\<rparr> \<lparr>vx = Fin 1, vy = Fin 0\<rparr> = Fin 0
   \<and> 0 < spec_likelihood sigma 0 0 1 0"
proof -
  have "goal_likelihood \<lparr>vx = Fin (3 * 10 ^ 38), vy = Fin 0\<rparr>
      \<lparr>vx = Fin (- (3 * 10 ^ 38)), vy = Fin 0\<rparr> = NaN"
    using goal_likelihood_overflow [where pred_x = "- (3 * 10 ^ 38)" and obs_x = "3 * 10 ^ 38"
        and pred_y = 0 and obs_y = 0]
    by (simp add: flt_overflow_def)
  moreover have "exp (- (((0 - 1)\<^sup>2 + (0 - 0)\<^sup>2) / (2 * sigma\<^sup>2))) \<le> (1::real) / 2 ^ 150"
    by (rule exp_underflow) (simp add: sigma_def power2_eq_square)
  then have "goal_likelihood \<lparr>vx = Fin 0, vy = Fin 0\<rparr> \<lparr>vx = Fin 1, vy = Fin 0\<rparr> = Fin 0"
    by (subst goal_likelihood_finite) (simp_all add: flt_overflow_def)
  moreover have "0 < spec_likelihood sigma 0 0 1 0"
    by (rule spec_likelihood_pos) (simp add: sigma_def)
  ultimately show ?thesis by simp
qed

text \<open>
  C2 as amended: for finite components of the observed velocity and of the predicted
  velocity of a goal, the likelihood the first loop computes is
  \<^item> NaN when a difference between a predicted and an observed component overflows the
    range of \<^verbatim>\<open>float\<close>;
  \<^item> otherwise \<open>0\<close> when the exponential of the density is at most \<open>2^-150\<close>, where
    \<^verbatim>\<open>exp\<close> underflows (a distance beyond about \<open>0.87\<close>);
  \<^item> otherwise the density of the spec: a bivariate Gaussian without correlation, centred
    at the predicted velocity, with the standard deviation
    \<open>\<sigma> = (max_acc / 2) * ros_freq = 0.06\<close> on both axes, evaluated at the observed velocity
    (up to the rounding of \<^verbatim>\<open>float\<close>; the constant \<^verbatim>\<open>PI\<close> is taken as \<open>\<pi>\<close>).
\<close>

theorem likelihood_is_bivariate_gaussian:
  "goal_likelihood \<lparr>vx = Fin obs_x, vy = Fin obs_y\<rparr> \<lparr>vx = Fin pred_x, vy = Fin pred_y\<rparr>
     = (if flt_overflow \<le> \<bar>pred_x - obs_x\<bar> \<or> flt_overflow \<le> \<bar>pred_y - obs_y\<bar> then NaN
        else if exp (- (((obs_x - pred_x)\<^sup>2 + (obs_y - pred_y)\<^sup>2) / (2 * sigma\<^sup>2)))
                  \<le> 1 / 2 ^ 150
          then Fin 0
        else Fin (spec_likelihood sigma obs_x obs_y pred_x pred_y))
   \<and> sigma = 6 / 100"
proof (cases "flt_overflow \<le> \<bar>pred_x - obs_x\<bar> \<or> flt_overflow \<le> \<bar>pred_y - obs_y\<bar>")
  case True
  then show ?thesis
    using goal_likelihood_overflow [OF True] by (simp add: sigma_def)
next
  case False
  then have "\<bar>pred_x - obs_x\<bar> < flt_overflow" "\<bar>pred_y - obs_y\<bar> < flt_overflow"
    by simp_all
  from goal_likelihood_finite [OF this] False show ?thesis
    by (simp add: sigma_def)
qed

theorem likelihood_is_bivariate_gaussian_witness:
  "goal_likelihood \<lparr>vx = Fin 1, vy = Fin 0\<rparr> \<lparr>vx = Fin 1, vy = Fin 0\<rparr>
     = Fin (1 / (2 * pi * (6 / 100)\<^sup>2))"
  using likelihood_is_bivariate_gaussian [where obs_x = 1 and obs_y = 0 and pred_x = 1
      and pred_y = 0]
  by (simp add: spec_likelihood_def flt_overflow_def)

subsection \<open>The update of an initialised filter\<close>

lemma normal_update:
  assumes "n \<le> length (init_liks m)" and "n \<le> length (prev_prior m)"
    and "length g_likelihoods = n"
    and "posterior_loop reset_priors n g_likelihoods m = Inr (m1, g_posteriors, Z)"
    and "\<not> feq Z (Fin 0)"
  shows "agent_update reset_priors n g_likelihoods m =
      Inr (m\<lparr>init_liks := replicate n True @ drop n (init_liks m),
             prev_prior := map (\<lambda>g. stored_prior (fdiv (g_posteriors ! g) Z)) [0..<n]
                             @ drop n (prev_prior m)\<rparr>,
           map (\<lambda>g. fdiv (g_posteriors ! g) Z) [0..<n])"
proof -
  let ?u = "uniform_prior n"
  from assms have P: "g_posteriors = map (post_val reset_priors ?u g_likelihoods m) [0..<n]"
    and Z: "Z = foldl fadd (Fin 0) g_posteriors"
    by (auto simp: posterior_loop_eq)
  show ?thesis
    using assms by (subst agent_update_eq [where u = ?u and P = g_posteriors and Z = Z])
      (simp_all add: P Z)
qed

text \<open>
  C1 does not hold as stated: the prior of an update is not the posterior the update
  before returned but the value it stored, and that is the floor \<open>0.005\<close> for every goal
  whose posterior was not above \<open>0.01\<close>. From the priors \<open>[1/2, 1/4, 1/4]\<close> the likelihoods
  \<open>[252, 4, 4]\<close> give the posterior \<open>[63/64, 1/128, 1/128]\<close>; the next update, with the
  likelihoods \<open>[1, 1, 1]\<close>, returns \<open>8/1591\<close> for goal 1, where the posterior \<open>1/128\<close> as the
  prior would give \<open>1/128\<close>.
\<close>

theorem stored_prior_counterexample:
  "agent_update reset_priors 3 [Fin 252, Fin 4, Fin 4]
     \<lparr>init_liks = [True, True, True], prev_prior = [Fin (1 / 2), Fin (1 / 4), Fin (1 / 4)]\<rparr>
   = Inr (\<lparr>init_liks = [True, True, True],
            prev_prior = [Fin (63 / 64), Fin (5 / 1000), Fin (5 / 1000)]\<rparr>,
          [Fin (63 / 64), Fin (1 / 128), Fin (1 / 128)])
   \<and> agent_update reset_priors 3 [Fin 1, Fin 1, Fin 1]
     \<lparr>init_liks = [True, True, True],
      prev_prior = [Fin (63 / 64), Fin (5 / 1000), Fin (5 / 1000)]\<rparr>
   = Inr (\<lparr>init_liks = [True, True, True],
            prev_prior = [Fin (1575 / 1591), Fin (5 / 1000), Fin (5 / 1000)]\<rparr>,
          [Fin (1575 / 1591), Fin (8 / 1591), Fin (8 / 1591)])
   \<and> fdiv (fmul (Fin 1) (Fin (1 / 128)))
        (foldl fadd (Fin 0)
           [fmul (Fin 1) (Fin (63 / 64)), fmul (Fin 1) (Fin (1 / 128)),
            fmul (Fin 1) (Fin (1 / 128))])
     = Fin (1 / 128)"
  by (simp add: agent_update_def posterior_loop_def posterior_body_def normalize_body_def
      reset_priors_def upt_rec numeral_3_eq_3 Let_def overflow_def flt_overflow_def)

text \<open>
  C1 as amended: an update that follows an update with a normaliser that is not zero (the
  update of the agent before in the same tick, or the last one of the tick before), and
  whose own normaliser \<open>Z\<close>, the sum of \<open>L[g] * prior[g]\<close> in the order of the loop, is not
  zero, returns \<open>belief[g] = L[g] * prior[g] / Z\<close> for every goal, where \<open>prior[g]\<close> is what
  the update before stored: its normalised posterior where that was above \<open>0.01\<close>, the
  floor \<open>0.005\<close> elsewhere.
\<close>

theorem recursive_update_on_stored_prior:
  assumes "n \<le> length (init_liks m)" and "n \<le> length (prev_prior m)"
    and "length liks1 = n" and "length liks2 = n"
    and "posterior_loop reset_priors n liks1 m = Inr (m0, posteriors1, Z1)"
    and "\<not> feq Z1 (Fin 0)"
    and "Z2 = foldl fadd (Fin 0)
           (map (\<lambda>g. fmul (liks2 ! g)
                   (if fgt (fdiv (posteriors1 ! g) Z1) (Fin (1 / 100))
                    then fdiv (posteriors1 ! g) Z1 else Fin (5 / 1000))) [0..<n])"
    and "\<not> feq Z2 (Fin 0)"
  shows "\<exists>m1 belief1 m2 belief2.
      agent_update reset_priors n liks1 m = Inr (m1, belief1)
      \<and> agent_update reset_priors n liks2 m1 = Inr (m2, belief2)
      \<and> (\<forall>g<n. belief1 ! g = fdiv (posteriors1 ! g) Z1
             \<and> belief2 ! g =
                 fdiv (fmul (liks2 ! g)
                         (if fgt (belief1 ! g) (Fin (1 / 100)) then belief1 ! g
                          else Fin (5 / 1000))) Z2)"
proof -
  let ?b1 = "map (\<lambda>g. fdiv (posteriors1 ! g) Z1) [0..<n]"
  let ?m1 = "m\<lparr>init_liks := replicate n True @ drop n (init_liks m),
               prev_prior := map (\<lambda>g. stored_prior (fdiv (posteriors1 ! g) Z1)) [0..<n]
                               @ drop n (prev_prior m)\<rparr>"
  have first: "agent_update reset_priors n liks1 m = Inr (?m1, ?b1)"
    using assms(1,2,3,5,6) by (rule normal_update)
  have prior1: "prev_prior ?m1 ! g = stored_prior (fdiv (posteriors1 ! g) Z1)" if "g < n" for g
    using that by (simp add: nth_append)
  have Z2: "Z2 = foldl fadd (Fin 0) (map (\<lambda>g. fmul (liks2 ! g) (prev_prior ?m1 ! g)) [0..<n])"
    unfolding assms(7)
    by (rule arg_cong [where f = "foldl fadd (Fin 0)"])
      (simp add: prior1 stored_prior_def nth_append)
  obtain m2 belief2 where second: "agent_update reset_priors n liks2 ?m1 = Inr (m2, belief2)"
    and b2: "\<forall>g<n. belief2 ! g = fdiv (fmul (liks2 ! g) (prev_prior ?m1 ! g)) Z2"
    using bayes_update_initialised [of n ?m1 liks2 Z2] assms(1,2,4,8) Z2
    by (auto simp: nth_append)
  have "belief2 ! g = fdiv (fmul (liks2 ! g)
      (if fgt (?b1 ! g) (Fin (1 / 100)) then ?b1 ! g else Fin (5 / 1000))) Z2" if "g < n" for g
    using that b2 prior1 [OF that] by (simp add: stored_prior_def)
  with first second show ?thesis
    by (intro exI [of _ ?m1] exI [of _ ?b1] exI [of _ m2] exI [of _ belief2]) simp
qed

theorem recursive_update_on_stored_prior_witness:
  "\<exists>m1 belief1 m2 belief2.
     agent_update reset_priors 3 [Fin 252, Fin 4, Fin 4]
       \<lparr>init_liks = [True, True, True], prev_prior = [Fin (1 / 2), Fin (1 / 4), Fin (1 / 4)]\<rparr>
       = Inr (m1, belief1)
     \<and> agent_update reset_priors 3 [Fin 1, Fin 1, Fin 1] m1 = Inr (m2, belief2)
     \<and> belief1 ! 0 = Fin (63 / 64) \<and> belief2 ! 0 = Fin (1575 / 1591)
     \<and> belief1 ! 1 = Fin (1 / 128) \<and> belief2 ! 1 = Fin (8 / 1591)"
proof -
  let ?m = "\<lparr>init_liks = [True, True, True],
             prev_prior = [Fin (1 / 2), Fin (1 / 4), Fin (1 / 4)]\<rparr>"
  have loop: "posterior_loop reset_priors 3 [Fin 252, Fin 4, Fin 4] ?m
      = Inr (?m, [Fin 126, Fin 1, Fin 1], Fin 128)"
    by (simp add: posterior_loop_def posterior_body_def reset_priors_def upt_rec
        numeral_3_eq_3 Let_def overflow_def flt_overflow_def)
  have nz: "\<not> feq (Fin 128) (Fin 0)" by simp
  have Z2: "Fin (1591 / 1600) = foldl fadd (Fin 0)
      (map (\<lambda>g. fmul ([Fin 1, Fin 1, Fin 1] ! g)
              (if fgt (fdiv ([Fin 126, Fin 1, Fin 1] ! g) (Fin 128)) (Fin (1 / 100))
               then fdiv ([Fin 126, Fin 1, Fin 1] ! g) (Fin 128) else Fin (5 / 1000))) [0..<3])"
    by (simp add: upt_rec numeral_3_eq_3 overflow_def flt_overflow_def)
  have nz2: "\<not> feq (Fin (1591 / 1600)) (Fin 0)" by simp
  from recursive_update_on_stored_prior [OF _ _ _ _ loop nz Z2 nz2]
  obtain m1 belief1 m2 belief2 where
    r1: "agent_update reset_priors 3 [Fin 252, Fin 4, Fin 4] ?m = Inr (m1, belief1)"
    and r2: "agent_update reset_priors 3 [Fin 1, Fin 1, Fin 1] m1 = Inr (m2, belief2)"
    and b: "\<forall>g<3. belief1 ! g = fdiv ([Fin 126, Fin 1, Fin 1] ! g) (Fin 128)
             \<and> belief2 ! g =
                 fdiv (fmul ([Fin 1, Fin 1, Fin 1] ! g)
                         (if fgt (belief1 ! g) (Fin (1 / 100)) then belief1 ! g
                          else Fin (5 / 1000))) (Fin (1591 / 1600))"
    by auto
  from b have "belief1 ! 0 = Fin (63 / 64)" "belief1 ! 1 = Fin (1 / 128)"
    by (simp_all add: overflow_def flt_overflow_def)
  moreover from b this have "belief2 ! 0 = Fin (1575 / 1591)" "belief2 ! 1 = Fin (8 / 1591)"
    by (simp_all add: overflow_def flt_overflow_def)
  ultimately show ?thesis using r1 r2 by blast
qed



text \<open>
  C5: when the normaliser \<open>Z\<close> is not zero, the update returns the normalised posterior
  \<open>belief[g] = P[g] / Z\<close> itself, and stores \<open>belief[g]\<close> as the next prior of the goal
  when \<open>belief[g] > 0.01\<close>, the floor \<open>0.005\<close> otherwise.
\<close>

theorem anti_collapse_floor:
  assumes "n \<le> length (init_liks m)" and "n \<le> length (prev_prior m)"
    and "length g_likelihoods = n"
    and "posterior_loop reset_priors n g_likelihoods m = Inr (m1, g_posteriors, Z)"
    and "\<not> feq Z (Fin 0)"
  shows "\<exists>m' belief. agent_update reset_priors n g_likelihoods m = Inr (m', belief)
           \<and> length belief = n
           \<and> (\<forall>g<n. belief ! g = fdiv (g_posteriors ! g) Z
                  \<and> prev_prior m' ! g =
                      (if fgt (belief ! g) (Fin (1 / 100)) then belief ! g else Fin (5 / 1000)))"
proof -
  let ?u = "uniform_prior n"
  from assms have P: "g_posteriors = map (post_val reset_priors ?u g_likelihoods m) [0..<n]"
    and Z: "Z = foldl fadd (Fin 0) g_posteriors"
    by (auto simp: posterior_loop_eq)
  have "agent_update reset_priors n g_likelihoods m =
      Inr (m\<lparr>init_liks := replicate n True @ drop n (init_liks m),
             prev_prior := map (\<lambda>g. stored_prior (fdiv (g_posteriors ! g) Z)) [0..<n]
                             @ drop n (prev_prior m)\<rparr>,
           map (\<lambda>g. fdiv (g_posteriors ! g) Z) [0..<n])"
    using assms by (subst agent_update_eq [where u = ?u and P = g_posteriors and Z = Z])
      (simp_all add: P Z)
  then show ?thesis by (simp add: nth_append stored_prior_def)
qed


theorem anti_collapse_floor_witness:
  "\<exists>m' belief.
     agent_update reset_priors 3 [Fin 796, Fin 4, Fin 4]
       \<lparr>init_liks = [True, True, True], prev_prior = [Fin (1 / 2), Fin (1 / 4), Fin (1 / 4)]\<rparr>
       = Inr (m', belief)
     \<and> belief ! 0 = Fin (199 / 200) \<and> prev_prior m' ! 0 = Fin (199 / 200)
     \<and> belief ! 1 = Fin (1 / 400) \<and> prev_prior m' ! 1 = Fin (5 / 1000)"
proof -
  let ?m = "\<lparr>init_liks = [True, True, True],
             prev_prior = [Fin (1 / 2), Fin (1 / 4), Fin (1 / 4)]\<rparr>"
  have loop: "posterior_loop reset_priors 3 [Fin 796, Fin 4, Fin 4] ?m
      = Inr (?m, [Fin 398, Fin 1, Fin 1], Fin 400)"
    by (simp add: posterior_loop_def posterior_body_def reset_priors_def upt_rec
        numeral_3_eq_3 Let_def overflow_def flt_overflow_def)
  show ?thesis
    using anti_collapse_floor [OF _ _ _ loop]
    by (simp add: numeral_3_eq_3 All_less_Suc overflow_def flt_overflow_def) fastforce
qed

text \<open>
  C3 does not hold for every finite input: with the observed \<open>x = 3e38\<close> and every
  predicted \<open>x = -3e38\<close> the likelihoods are NaN, and the tick of an initialised filter
  returns three NaNs.
\<close>

theorem overflow_belief_counterexample:
  "inferGoals 1 3 \<lparr>vx = Fin (3 * 10 ^ 38), vy = Fin 0\<rparr>
     [\<lparr>vx = Fin (- (3 * 10 ^ 38)), vy = Fin 0\<rparr>, \<lparr>vx = Fin (- (3 * 10 ^ 38)), vy = Fin 0\<rparr>,
      \<lparr>vx = Fin (- (3 * 10 ^ 38)), vy = Fin 0\<rparr>]
     \<lparr>init_liks = [True, True, True], prev_prior = [Fin (1 / 3), Fin (1 / 3), Fin (1 / 3)]\<rparr>
   = Inr (\<lparr>init_liks = [True, True, True],
            prev_prior = [Fin (5 / 1000), Fin (5 / 1000), Fin (5 / 1000)]\<rparr>,
          [[NaN, NaN, NaN]])"
proof -
  have nan: "goal_likelihood \<lparr>vx = Fin (3 * 10 ^ 38), vy = Fin 0\<rparr>
      \<lparr>vx = Fin (- (3 * 10 ^ 38)), vy = Fin 0\<rparr> = NaN"
    using goal_likelihood_overflow [where pred_x = "- (3 * 10 ^ 38)" and obs_x = "3 * 10 ^ 38"
        and pred_y = 0 and obs_y = 0]
    by (simp add: flt_overflow_def)
  show ?thesis
    unfolding inferGoals_def agents_body_def infer_agent_def agent_update_def
      posterior_loop_def posterior_body_def normalize_body_def reset_priors_def Let_def
    by (simp add: nan upt_rec numeral_3_eq_3 del: power_numeral)
qed

text \<open>
  C3 as amended: for one to three goals, finite components of the observed and of every
  predicted velocity whose differences stay inside the range of \<^verbatim>\<open>float\<close>, and stored
  priors that are finite and between 0 and 1, the belief the update returns consists of
  finite values that are not negative and sum to one (up to the rounding of \<^verbatim>\<open>float\<close>),
  whether the normaliser is zero or not; the priors it stores are again finite and
  between 0 and 1. Lemma \<open>agent_update_normalised\<close> is the same for any vector of finite
  likelihoods between 0 and 70, zeros included.
\<close>

theorem belief_is_distribution:
  assumes "0 < n" and "n \<le> 3"
    and "n \<le> length (init_liks m)" and "n \<le> length (prev_prior m)"
    and "length sims = n"
    and "curr_vel = \<lparr>vx = Fin obs_x, vy = Fin obs_y\<rparr>"
    and "\<forall>v\<in>set sims. \<exists>x y. v = \<lparr>vx = Fin x, vy = Fin y\<rparr>
           \<and> \<bar>x - obs_x\<bar> < flt_overflow \<and> \<bar>y - obs_y\<bar> < flt_overflow"
    and "prev_prior m = map Fin priors" and "\<forall>p\<in>set priors. 0 \<le> p \<and> p \<le> 1"
  shows "\<exists>m' bs priors'.
      agent_update reset_priors n (map (goal_likelihood curr_vel) sims) m = Inr (m', map Fin bs)
      \<and> length bs = n \<and> sum_list bs = 1 \<and> (\<forall>b\<in>set bs. 0 \<le> b)
      \<and> prev_prior m' = map Fin priors' \<and> (\<forall>p\<in>set priors'. 0 \<le> p \<and> p \<le> 1)"
proof -
  have "\<forall>l\<in>set (map (goal_likelihood curr_vel) sims). \<exists>r. l = Fin r \<and> 0 \<le> r \<and> r \<le> 70"
    using assms(7) goal_likelihood_range unfolding assms(6) by fastforce
  then obtain ls where ls: "map (goal_likelihood curr_vel) sims = map Fin ls"
      "\<forall>r\<in>set ls. 0 \<le> r \<and> r \<le> 70"
    using finite_list by blast
  from ls(1) have "length ls = length sims"
    by (metis length_map)
  with assms(5) have len: "length ls = n" by simp
  show ?thesis
    by (rule agent_update_normalised [OF assms(1,2,3,4) ls(1) len ls(2) assms(8,9)])
qed

theorem belief_is_distribution_witness:
  "\<exists>m' bs. agent_update reset_priors 3
       (map (goal_likelihood \<lparr>vx = Fin 1, vy = Fin 0\<rparr>)
          [\<lparr>vx = Fin 1, vy = Fin 0\<rparr>, \<lparr>vx = Fin 0, vy = Fin 1\<rparr>, \<lparr>vx = Fin (- 1), vy = Fin 0\<rparr>])
       \<lparr>init_liks = [True, True, True], prev_prior = [Fin (1 / 2), Fin (1 / 2), Fin 0]\<rparr>
     = Inr (m', map Fin bs) \<and> sum_list bs = 1 \<and> (\<forall>b\<in>set bs. 0 \<le> b)"
  using belief_is_distribution [of 3
      "\<lparr>init_liks = [True, True, True], prev_prior = [Fin (1 / 2), Fin (1 / 2), Fin 0]\<rparr>"
      "[\<lparr>vx = Fin 1, vy = Fin 0\<rparr>, \<lparr>vx = Fin 0, vy = Fin 1\<rparr>, \<lparr>vx = Fin (- 1), vy = Fin 0\<rparr>]"
      "\<lparr>vx = Fin 1, vy = Fin 0\<rparr>" 1 0 "[1 / 2, 1 / 2, 0]"]
  by (simp add: flt_overflow_def) blast

subsection \<open>Resetting\<close>

text \<open>
  C8 does not hold as stated. The flag \<^verbatim>\<open>reset_priors\<close> is the constant false, and the
  number of goals of the tick before is not stored anywhere: after a tick with three
  goals, a tick with two goals multiplies the likelihoods with the stored priors and
  returns \<open>[1/4, 3/4]\<close> for the likelihoods \<open>[1, 3]\<close>, not the uniform \<open>[1/2, 1/2]\<close>.
\<close>

theorem reset_changes_nothing_counterexample:
  "agent_update reset_priors 3 [Fin 1, Fin 1, Fin 1] ModelWrapper_init
     = Inr (\<lparr>init_liks = [True, True, True],
              prev_prior = [Fin (1 / 3), Fin (1 / 3), Fin (1 / 3)]\<rparr>,
            [Fin (1 / 3), Fin (1 / 3), Fin (1 / 3)])
   \<and> agent_update reset_priors 2 [Fin 1, Fin 3]
         \<lparr>init_liks = [True, True, True],
          prev_prior = [Fin (1 / 3), Fin (1 / 3), Fin (1 / 3)]\<rparr>
     = Inr (\<lparr>init_liks = [True, True, True],
              prev_prior = [Fin (1 / 4), Fin (3 / 4), Fin (1 / 3)]\<rparr>,
            [Fin (1 / 4), Fin (3 / 4)])
   \<and> uniform_prior 2 = Fin (1 / 2)"
  by (simp add: agent_update_def posterior_loop_def posterior_body_def normalize_body_def
      reset_priors_def ModelWrapper_init_def uniform_prior_def upt_rec numeral_3_eq_3
      numeral_2_eq_2 Let_def overflow_def flt_overflow_def)


text \<open>
  C8 as amended: the belief is the uniform \<open>1 / n\<close> for every goal, whatever the stored
  priors and the likelihoods, when no goal below \<open>n\<close> has its flag in \<^verbatim>\<open>init_liks_\<close> set
  (the first tick), and it would be whenever the reset flag were true; but the flag that
  \<^verbatim>\<open>inferGoals\<close> passes is false.
\<close>

theorem uniform_when_uninitialised:
  assumes "0 < n" and "n \<le> length (init_liks m)" and "n \<le> length (prev_prior m)"
    and "length g_likelihoods = n"
    and "reset \<or> (\<forall>g<n. \<not> init_liks m ! g)"
  shows "\<not> reset_priors \<and>
    (\<exists>m'. agent_update reset n g_likelihoods m = Inr (m', replicate n (Fin (1 / real n))))"
proof -
  let ?u = "Fin (1 / real n)"
  let ?P = "map (post_val reset ?u g_likelihoods m) [0..<n]"
  have P: "?P = map Fin (replicate n (1 / real n))"
    using assms(5) by (intro nth_equalityI) (auto simp: post_val_def)
  have Z: "foldl fadd (Fin 0) ?P = Fin 1"
    unfolding P using assms(1)
    by (subst foldl_fadd_Fin) (simp_all add: sum_list_replicate)
  have q: "overflow (1 / real n) = Fin (1 / real n)"
    using assms(1) by (intro overflow_nonneg_small) (simp_all add: field_simps)
  have "agent_update reset n g_likelihoods m =
      Inr (m\<lparr>init_liks := replicate n True @ drop n (init_liks m),
             prev_prior := map (\<lambda>g. stored_prior (fdiv (?P ! g) (Fin 1))) [0..<n]
                             @ drop n (prev_prior m)\<rparr>,
           map (\<lambda>g. fdiv (?P ! g) (Fin 1)) [0..<n])"
    using assms by (subst agent_update_eq [where u = ?u and P = ?P and Z = "Fin 1"])
      (simp_all add: Z uniform_prior_pos)
  moreover have "map (\<lambda>g. fdiv (?P ! g) (Fin 1)) [0..<n] = replicate n ?u"
    unfolding P by (intro nth_equalityI) (simp_all add: q)
  ultimately show ?thesis by (simp add: reset_priors_def)
qed

theorem uniform_when_uninitialised_witness:
  "\<exists>m'. agent_update False 3 [Fin 5, Fin 1, Fin 0] ModelWrapper_init
        = Inr (m', [Fin (1 / 3), Fin (1 / 3), Fin (1 / 3)])"
  using uniform_when_uninitialised [of 3 ModelWrapper_init "[Fin 5, Fin 1, Fin 0]" False]
  by (simp add: ModelWrapper_init_def numeral_3_eq_3 All_less_Suc)

subsection \<open>Bounds\<close>

text \<open>
  C10 does not hold as stated: a tick without agents accesses no vector at all, so it
  stays within bounds with five goals; and a tick with three goals and one agent reads
  past the end of an empty vector of simulated velocities.
\<close>

theorem in_bounds_counterexample:
  "inferGoals 0 5 \<lparr>vx = Fin 0, vy = Fin 0\<rparr> [] ModelWrapper_init = Inr (ModelWrapper_init, [])
   \<and> inferGoals 1 3 \<lparr>vx = Fin 0, vy = Fin 0\<rparr> [] ModelWrapper_init = Inl OutOfBounds"
  by (simp add: inferGoals_def agents_body_def infer_agent_def)

text \<open>
  C10 as amended: for a tick with at least one agent, whose vector of simulated velocities
  holds a slice of \<open>n_goals\<close> entries for every agent, every vector access of
  \<^verbatim>\<open>inferGoals\<close> stays within bounds exactly when \<open>n_goals = 3\<close>: with more goals the
  second loop indexes \<^verbatim>\<open>init_liks_\<close> (of length 3) past its end, with fewer the log line
  reads \<^verbatim>\<open>norm_posteriors[2]\<close> past the end of a vector of length \<open>n_goals\<close>.
\<close>

theorem in_bounds_iff_three_goals:
  assumes "length (init_liks m) = 3" and "length (prev_prior m) = 3"
    and "0 < n_agents" and "n_agents * n_goals \<le> length sequence_sim_vels"
  shows "(\<exists>r. inferGoals n_agents n_goals curr_vel sequence_sim_vels m = Inr r)
           \<longleftrightarrow> n_goals = 3"
proof
  assume "n_goals = 3"
  with assms agents_loop_three [OF assms(1,2), of n_agents sequence_sim_vels curr_vel "[]"]
  show "\<exists>r. inferGoals n_agents n_goals curr_vel sequence_sim_vels m = Inr r"
    by (auto simp: inferGoals_def)
next
  assume ok: "\<exists>r. inferGoals n_agents n_goals curr_vel sequence_sim_vels m = Inr r"
  show "n_goals = 3"
  proof (rule ccontr)
    assume "n_goals \<noteq> 3"
    moreover have "(0 + 1) * n_goals \<le> length sequence_sim_vels"
      using assms(3,4) by (cases n_agents) auto
    ultimately have "infer_agent curr_vel n_goals sequence_sim_vels 0 m = Inl OutOfBounds"
      using assms(1,2) by (intro infer_agent_not_three)
    moreover have "[0..<n_agents] = 0 # [1..<n_agents]"
      using assms(3) by (simp add: upt_conv_Cons)
    ultimately have "inferGoals n_agents n_goals curr_vel sequence_sim_vels m = Inl OutOfBounds"
      by (simp add: inferGoals_def agents_body_def)
    with ok show False by simp
  qed
qed

theorem in_bounds_iff_three_goals_witness:
  "(\<exists>r. inferGoals 1 3 \<lparr>vx = Fin 1, vy = Fin 0\<rparr>
      [\<lparr>vx = Fin 1, vy = Fin 0\<rparr>, \<lparr>vx = Fin 0, vy = Fin 1\<rparr>, \<lparr>vx = Fin (- 1), vy = Fin 0\<rparr>]
      ModelWrapper_init = Inr r)
   \<and> \<not> (\<exists>r. inferGoals 1 2 \<lparr>vx = Fin 1, vy = Fin 0\<rparr>
      [\<lparr>vx = Fin 1, vy = Fin 0\<rparr>, \<lparr>vx = Fin 0, vy = Fin 1\<rparr>, \<lparr>vx = Fin (- 1), vy = Fin 0\<rparr>]
      ModelWrapper_init = Inr r)"
  using in_bounds_iff_three_goals [of ModelWrapper_init 1 3
      "[\<lparr>vx = Fin 1, vy = Fin 0\<rparr>, \<lparr>vx = Fin 0, vy = Fin 1\<rparr>, \<lparr>vx = Fin (- 1), vy = Fin 0\<rparr>]"
      "\<lparr>vx = Fin 1, vy = Fin 0\<rparr>"]
    in_bounds_iff_three_goals [of ModelWrapper_init 1 2
      "[\<lparr>vx = Fin 1, vy = Fin 0\<rparr>, \<lparr>vx = Fin 0, vy = Fin 1\<rparr>, \<lparr>vx = Fin (- 1), vy = Fin 0\<rparr>]"
      "\<lparr>vx = Fin 1, vy = Fin 0\<rparr>"]
  by (simp add: ModelWrapper_init_def)

subsection \<open>Values that are not finite\<close>

text \<open>
  C9 does not hold: \<^verbatim>\<open>inferGoals\<close> checks none of its inputs. With an observed velocity
  whose \<open>x\<close> is NaN, the tick of an initialised filter returns a belief of three NaNs and
  stores the floor \<open>0.005\<close> for every goal.
\<close>

theorem non_finite_input_counterexample:
  "inferGoals 1 3 \<lparr>vx = NaN, vy = Fin 0\<rparr>
     [\<lparr>vx = Fin 0, vy = Fin 0\<rparr>, \<lparr>vx = Fin 0, vy = Fin 0\<rparr>, \<lparr>vx = Fin 0, vy = Fin 0\<rparr>]
     \<lparr>init_liks = [True, True, True], prev_prior = [Fin (1 / 3), Fin (1 / 3), Fin (1 / 3)]\<rparr>
   = Inr (\<lparr>init_liks = [True, True, True],
            prev_prior = [Fin (5 / 1000), Fin (5 / 1000), Fin (5 / 1000)]\<rparr>,
          [[NaN, NaN, NaN]])"
  by (simp add: inferGoals_def agents_body_def infer_agent_def agent_update_def
      posterior_loop_def posterior_body_def normalize_body_def reset_priors_def
      goal_likelihood_nan upt_rec numeral_3_eq_3 Let_def overflow_def flt_overflow_def)

text \<open>
  C9 as amended: a component that is not finite, in the observed velocity or in the
  predicted velocity of goal \<open>g\<close>, is not rejected. The likelihood of \<open>g\<close> is computed and
  is NaN, the update of the agent returns, and when \<open>g\<close> is initialised the NaN reaches the
  normaliser: every entry of the returned belief is NaN.
\<close>

theorem non_finite_input_propagates:
  assumes "length (init_liks m) = 3" and "length (prev_prior m) = 3"
    and "(agent + 1) * 3 \<le> length sequence_sim_vels" and "g < 3"
    and "\<not> (is_finite (vx curr_vel) \<and> is_finite (vy curr_vel)
             \<and> is_finite (vx (sequence_sim_vels ! (agent * 3 + g)))
             \<and> is_finite (vy (sequence_sim_vels ! (agent * 3 + g))))"
  shows "goal_likelihood curr_vel (sequence_sim_vels ! (agent * 3 + g)) = NaN
    \<and> (\<exists>m' belief. infer_agent curr_vel 3 sequence_sim_vels agent m = Inr (m', belief)
          \<and> (init_liks m ! g \<longrightarrow> belief = [NaN, NaN, NaN]))"
proof -
  let ?liks = "map (goal_likelihood curr_vel) (take 3 (drop (agent * 3) sequence_sim_vels))"
  let ?P = "map (post_val reset_priors (uniform_prior 3) ?liks m) [0..<3]"
  let ?Z = "foldl fadd (Fin 0) ?P"
  have nan: "goal_likelihood curr_vel (sequence_sim_vels ! (agent * 3 + g)) = NaN"
    using assms(5) by (rule goal_likelihood_nan)
  have len: "length ?liks = 3" using assms(3) by simp
  have lik_g: "?liks ! g = NaN"
    using assms(3,4) nan by simp
  note upd = agent_update_eq [where u = "uniform_prior 3" and P = ?P and Z = ?Z
      and reset = reset_priors and n = 3 and m = m and liks = ?liks, OF _ _ _ refl refl refl]
  have belief_len: "\<exists>m' belief. agent_update reset_priors 3 ?liks m = Inr (m', belief)
      \<and> length belief = 3 \<and> (init_liks m ! g \<longrightarrow> belief = [NaN, NaN, NaN])"
  proof (cases "init_liks m ! g")
    case False
    have "\<exists>m' b. agent_update reset_priors 3 ?liks m = Inr (m', b) \<and> length b = 3
           \<and> length (init_liks m') = length (init_liks m)
           \<and> length (prev_prior m') = length (prev_prior m)"
      by (rule agent_update_total) (use assms(1,2,3) in simp_all)
    with False show ?thesis by blast
  next
    case True
    then have "?P ! g = NaN"
      using assms(4) lik_g by (simp add: post_val_def reset_priors_def)
    then have "NaN \<in> set ?P"
      using assms(4) by (metis length_map length_upt diff_zero nth_mem)
    then have Z: "?Z = NaN" by (rule foldl_fadd_has_NaN)
    have "agent_update reset_priors 3 ?liks m =
        Inr (m\<lparr>init_liks := replicate 3 True @ drop 3 (init_liks m),
               prev_prior := map (\<lambda>g. stored_prior (fdiv (?P ! g) ?Z)) [0..<3]
                               @ drop 3 (prev_prior m)\<rparr>,
             map (\<lambda>g. fdiv (?P ! g) ?Z) [0..<3])"
      using assms(1,2) len by (subst upd) (simp_all add: Z)
    moreover have "map (\<lambda>g. fdiv (?P ! g) ?Z) [0..<3] = [NaN, NaN, NaN]"
      unfolding Z by (simp add: upt_rec numeral_3_eq_3)
    ultimately show ?thesis by simp
  qed
  then show ?thesis
    using nan assms(3) by (auto simp: infer_agent_def Let_def)
qed

theorem non_finite_input_propagates_witness:
  "goal_likelihood \<lparr>vx = PInf, vy = Fin 0\<rparr> \<lparr>vx = Fin 0, vy = Fin 1\<rparr> = NaN
   \<and> (\<exists>m'. infer_agent \<lparr>vx = PInf, vy = Fin 0\<rparr> 3
          [\<lparr>vx = Fin 1, vy = Fin 0\<rparr>, \<lparr>vx = Fin 0, vy = Fin 1\<rparr>, \<lparr>vx = Fin (- 1), vy = Fin 0\<rparr>] 0
          \<lparr>init_liks = [True, True, True],
           prev_prior = [Fin (1 / 3), Fin (1 / 3), Fin (1 / 3)]\<rparr>
        = Inr (m', [NaN, NaN, NaN]))"
  using non_finite_input_propagates [of
      "\<lparr>init_liks = [True, True, True], prev_prior = [Fin (1 / 3), Fin (1 / 3), Fin (1 / 3)]\<rparr>"
      0 "[\<lparr>vx = Fin 1, vy = Fin 0\<rparr>, \<lparr>vx = Fin 0, vy = Fin 1\<rparr>, \<lparr>vx = Fin (- 1), vy = Fin 0\<rparr>]"
      1 "\<lparr>vx = PInf, vy = Fin 0\<rparr>"]
  by simp

subsection \<open>The scenario with three goals\<close>

lemma agent_update_init3:
  assumes S: "S = l0 * p0 + l1 * p1 + l2 * p2" "S \<noteq> 0"
    and l: "0 \<le> l0" "l0 \<le> 70" "0 \<le> l1" "l1 \<le> 70" "0 \<le> l2" "l2 \<le> 70"
    and p: "0 \<le> p0" "p0 \<le> 1" "0 \<le> p1" "p1 \<le> 1" "0 \<le> p2" "p2 \<le> 1"
  shows "agent_update reset_priors 3 [Fin l0, Fin l1, Fin l2]
           \<lparr>init_liks = [True, True, True], prev_prior = [Fin p0, Fin p1, Fin p2]\<rparr>
         = Inr (\<lparr>init_liks = [True, True, True],
                  prev_prior = [stored_prior (Fin (l0 * p0 / S)),
                                stored_prior (Fin (l1 * p1 / S)),
                                stored_prior (Fin (l2 * p2 / S))]\<rparr>,
                [Fin (l0 * p0 / S), Fin (l1 * p1 / S), Fin (l2 * p2 / S)])"
proof -
  let ?m = "\<lparr>init_liks = [True, True, True], prev_prior = [Fin p0, Fin p1, Fin p2]\<rparr>"
  have prod: "0 \<le> a * b \<and> a * b \<le> 70" if "0 \<le> a" "a \<le> 70" "0 \<le> b" "b \<le> 1" for a b :: real
  proof -
    have "a * b \<le> 70 * 1" using that by (intro mult_mono) simp_all
    with that show ?thesis by simp
  qed
  note r0 = prod [OF l(1,2) p(1,2)] and r1 = prod [OF l(3,4) p(3,4)]
    and r2 = prod [OF l(5,6) p(5,6)]
  have m0: "fmul (Fin l0) (Fin p0) = Fin (l0 * p0)"
    and m1: "fmul (Fin l1) (Fin p1) = Fin (l1 * p1)"
    and m2: "fmul (Fin l2) (Fin p2) = Fin (l2 * p2)"
    using r0 r1 r2 by (simp_all add: overflow_nonneg_small)
  have a0: "fadd (Fin 0) (Fin (l0 * p0)) = Fin (l0 * p0)"
    using r0 by (simp add: overflow_nonneg_small)
  have a1: "fadd (Fin (l0 * p0)) (Fin (l1 * p1)) = Fin (l0 * p0 + l1 * p1)"
    using r0 r1 by (simp add: overflow_nonneg_small)
  have a2: "fadd (Fin (l0 * p0 + l1 * p1)) (Fin (l2 * p2)) = Fin S"
    using r0 r1 r2 by (simp add: overflow_nonneg_small S(1))
  have loop: "posterior_loop reset_priors 3 [Fin l0, Fin l1, Fin l2] ?m
      = Inr (?m, [Fin (l0 * p0), Fin (l1 * p1), Fin (l2 * p2)], Fin S)"
    unfolding posterior_loop_def posterior_body_def reset_priors_def Let_def
    by (simp add: upt_rec numeral_3_eq_3 m0 m1 m2 a0 a1 a2 del: fmul.simps fadd.simps)
  have S_pos: "0 < S" using r0 r1 r2 S by simp
  have quot: "fdiv (Fin a) (Fin S) = Fin (a / S)" if "0 \<le> a" "a \<le> S" for a
  proof -
    have "0 \<le> a / S" "a / S \<le> 1000" using that S_pos by (simp_all add: field_simps)
    then have "overflow (a / S) = Fin (a / S)" by (rule overflow_nonneg_small)
    with S_pos show ?thesis by simp
  qed
  have d0: "fdiv (Fin (l0 * p0)) (Fin S) = Fin (l0 * p0 / S)"
    by (rule quot) (use r0 r1 r2 S(1) in linarith)+
  have d1: "fdiv (Fin (l1 * p1)) (Fin S) = Fin (l1 * p1 / S)"
    by (rule quot) (use r0 r1 r2 S(1) in linarith)+
  have d2: "fdiv (Fin (l2 * p2)) (Fin S) = Fin (l2 * p2 / S)"
    by (rule quot) (use r0 r1 r2 S(1) in linarith)+
  have nz: "\<not> feq (Fin S) (Fin 0)" using S(2) by simp
  show ?thesis
    by (subst normal_update [OF _ _ _ loop nz])
      (simp_all add: upt_rec numeral_3_eq_3 d0 d1 d2 del: fdiv.simps)
qed

lemma likelihood_at_mean:
  "goal_likelihood \<lparr>vx = Fin a, vy = Fin b\<rparr> \<lparr>vx = Fin a, vy = Fin b\<rparr>
     = Fin (1 / (2 * pi * (6 / 100)\<^sup>2))"
  by (subst goal_likelihood_finite)
    (simp_all add: flt_overflow_def spec_likelihood_def sigma_def)

lemma likelihood_far:
  assumes "\<bar>c - a\<bar> < flt_overflow" and "\<bar>d - b\<bar> < flt_overflow"
    and "1 \<le> (a - c)\<^sup>2 + (b - d)\<^sup>2"
  shows "goal_likelihood \<lparr>vx = Fin a, vy = Fin b\<rparr> \<lparr>vx = Fin c, vy = Fin d\<rparr> = Fin 0"
proof -
  have "114 \<le> ((a - c)\<^sup>2 + (b - d)\<^sup>2) / (2 * sigma\<^sup>2)"
    using assms(3) by (simp add: sigma_def power2_eq_square field_simps)
  then have "exp (- (((a - c)\<^sup>2 + (b - d)\<^sup>2) / (2 * sigma\<^sup>2))) \<le> 1 / 2 ^ 150"
    by (rule exp_underflow)
  then show ?thesis
    by (simp add: goal_likelihood_finite [OF assms(1,2)])
qed

lemma initialising_tick:
  "inferGoals 1 3 curr_vel [v0, v1, v2] ModelWrapper_init
   = Inr (\<lparr>init_liks = [True, True, True],
            prev_prior = [Fin (1 / 3), Fin (1 / 3), Fin (1 / 3)]\<rparr>,
          [[Fin (1 / 3), Fin (1 / 3), Fin (1 / 3)]])"
  by (simp add: inferGoals_def agents_body_def infer_agent_def agent_update_def
      posterior_loop_def posterior_body_def normalize_body_def reset_priors_def
      ModelWrapper_init_def uniform_prior_def upt_rec numeral_3_eq_3 Let_def
      overflow_def flt_overflow_def)

lemma density_constant:
  "0 < 1 / (2 * pi * (6 / 100)\<^sup>2)" "1 / (2 * pi * (6 / 100)\<^sup>2) \<le> (70::real)"
  by (rule density_factor(2), rule density_factor(3))

lemma peak_update:
  assumes "0 < c" and "c \<le> 70"
  shows "agent_update reset_priors 3 [Fin c, Fin 0, Fin 0]
           \<lparr>init_liks = [True, True, True],
            prev_prior = [Fin (1 / 3), Fin (1 / 3), Fin (1 / 3)]\<rparr>
         = Inr (\<lparr>init_liks = [True, True, True],
                  prev_prior = [Fin 1, Fin (5 / 1000), Fin (5 / 1000)]\<rparr>,
                [Fin 1, Fin 0, Fin 0])"
proof -
  have S: "c / 3 = c * (1 / 3) + 0 * (1 / 3) + 0 * (1 / 3)" by simp
  have "c / 3 \<noteq> 0" using assms by simp
  from agent_update_init3 [OF S this] assms show ?thesis
    by (simp add: stored_prior_def)
qed

lemma equal_update:
  assumes c: "0 < c" "c \<le> 70"
    and p: "0 \<le> p0" "p0 \<le> 1" "0 \<le> p1" "p1 \<le> 1" "0 \<le> p2" "p2 \<le> 1"
    and T: "T = p0 + p1 + p2" "0 < T"
  shows "agent_update reset_priors 3 [Fin c, Fin c, Fin c]
           \<lparr>init_liks = [True, True, True], prev_prior = [Fin p0, Fin p1, Fin p2]\<rparr>
         = Inr (\<lparr>init_liks = [True, True, True],
                  prev_prior = [stored_prior (Fin (p0 / T)), stored_prior (Fin (p1 / T)),
                                stored_prior (Fin (p2 / T))]\<rparr>,
                [Fin (p0 / T), Fin (p1 / T), Fin (p2 / T)])"
proof -
  have S: "c * T = c * p0 + c * p1 + c * p2"
    unfolding T(1) by (simp add: algebra_simps)
  have nz: "c * T \<noteq> 0" using c T by simp
  have "c * x / (c * T) = x / T" for x using c by simp
  with agent_update_init3 [OF S nz _ c(2) _ c(2) _ c(2) p] c(1) show ?thesis
    by simp
qed

text \<open>
  C6 does not hold: on the first tick no goal is initialised, so the second loop stores
  the uniform prior as the posterior of every goal without looking at the likelihoods.
  For the observed velocity \<open>(1, 0)\<close> and the predicted velocities \<open>(1, 0)\<close>, \<open>(0, 1)\<close>,
  \<open>(-1, 0)\<close> the first tick returns \<open>1/3\<close> for every goal, and \<open>1/3\<close> is not above \<open>0.98\<close>.
\<close>

theorem first_tick_counterexample:
  "inferGoals 1 3 \<lparr>vx = Fin 1, vy = Fin 0\<rparr>
     [\<lparr>vx = Fin 1, vy = Fin 0\<rparr>, \<lparr>vx = Fin 0, vy = Fin 1\<rparr>, \<lparr>vx = Fin (- 1), vy = Fin 0\<rparr>]
     ModelWrapper_init
   = Inr (\<lparr>init_liks = [True, True, True],
            prev_prior = [Fin (1 / 3), Fin (1 / 3), Fin (1 / 3)]\<rparr>,
          [[Fin (1 / 3), Fin (1 / 3), Fin (1 / 3)]])
   \<and> \<not> fgt (Fin (1 / 3)) (Fin (98 / 100))"
  by (simp add: inferGoals_def agents_body_def infer_agent_def agent_update_def
      posterior_loop_def posterior_body_def normalize_body_def reset_priors_def
      ModelWrapper_init_def uniform_prior_def upt_rec numeral_3_eq_3 Let_def
      overflow_def flt_overflow_def)

text \<open>
  C6 as amended: in this scenario the first tick returns the uniform belief \<open>1/3\<close> for
  every goal; the likelihoods are first used on the second tick. There the exponentials of
  the goals 1 and 2 underflow to \<open>0\<close>, and the tick returns exactly \<open>1\<close> for goal 0, which
  is above \<open>0.98\<close>, and exactly \<open>0\<close> for the goals 1 and 2; it stores the priors \<open>1\<close>,
  \<open>0.005\<close>, \<open>0.005\<close>.
\<close>

theorem first_tick_uniform_then_peaked:
  "inferGoals 1 3 \<lparr>vx = Fin 1, vy = Fin 0\<rparr>
     [\<lparr>vx = Fin 1, vy = Fin 0\<rparr>, \<lparr>vx = Fin 0, vy = Fin 1\<rparr>, \<lparr>vx = Fin (- 1), vy = Fin 0\<rparr>]
     ModelWrapper_init
   = Inr (\<lparr>init_liks = [True, True, True],
            prev_prior = [Fin (1 / 3), Fin (1 / 3), Fin (1 / 3)]\<rparr>,
          [[Fin (1 / 3), Fin (1 / 3), Fin (1 / 3)]])
   \<and> inferGoals 1 3 \<lparr>vx = Fin 1, vy = Fin 0\<rparr>
     [\<lparr>vx = Fin 1, vy = Fin 0\<rparr>, \<lparr>vx = Fin 0, vy = Fin 1\<rparr>, \<lparr>vx = Fin (- 1), vy = Fin 0\<rparr>]
     \<lparr>init_liks = [True, True, True], prev_prior = [Fin (1 / 3), Fin (1 / 3), Fin (1 / 3)]\<rparr>
   = Inr (\<lparr>init_liks = [True, True, True],
            prev_prior = [Fin 1, Fin (5 / 1000), Fin (5 / 1000)]\<rparr>,
          [[Fin 1, Fin 0, Fin 0]])
   \<and> fgt (Fin 1) (Fin (98 / 100))"
proof -
  let ?cur = "\<lparr>vx = Fin 1, vy = Fin 0\<rparr>"
  let ?sims = "[\<lparr>vx = Fin 1, vy = Fin 0\<rparr>, \<lparr>vx = Fin 0, vy = Fin 1\<rparr>,
                \<lparr>vx = Fin (- 1), vy = Fin 0\<rparr>]"
  let ?m1 = "\<lparr>init_liks = [True, True, True],
              prev_prior = [Fin (1 / 3), Fin (1 / 3), Fin (1 / 3)]\<rparr>"
  define c :: real where "c = 1 / (2 * pi * (6 / 100)\<^sup>2)"
  have c: "0 < c" "c \<le> 70" unfolding c_def by (rule density_constant)+
  have l1: "goal_likelihood ?cur \<lparr>vx = Fin 0, vy = Fin 1\<rparr> = Fin 0"
    by (rule likelihood_far) (simp_all add: flt_overflow_def)
  have l2: "goal_likelihood ?cur \<lparr>vx = Fin (- 1), vy = Fin 0\<rparr> = Fin 0"
    by (rule likelihood_far) (simp_all add: flt_overflow_def)
  have liks: "map (goal_likelihood ?cur) ?sims = [Fin c, Fin 0, Fin 0]"
    by (simp add: likelihood_at_mean l1 l2 c_def)
  have upd: "agent_update reset_priors 3 [Fin c, Fin 0, Fin 0] ?m1
      = Inr (\<lparr>init_liks = [True, True, True],
               prev_prior = [Fin 1, Fin (5 / 1000), Fin (5 / 1000)]\<rparr>,
             [Fin 1, Fin 0, Fin 0])"
    using c by (rule peak_update)
  have "take 3 (drop (0 * 3) ?sims) = ?sims" by simp
  then have "infer_agent ?cur 3 ?sims 0 ?m1
      = Inr (\<lparr>init_liks = [True, True, True],
               prev_prior = [Fin 1, Fin (5 / 1000), Fin (5 / 1000)]\<rparr>,
             [Fin 1, Fin 0, Fin 0])"
    unfolding infer_agent_def Let_def by (simp only: liks upd) simp
  then have tick2: "inferGoals 1 3 ?cur ?sims ?m1
      = Inr (\<lparr>init_liks = [True, True, True],
               prev_prior = [Fin 1, Fin (5 / 1000), Fin (5 / 1000)]\<rparr>,
             [[Fin 1, Fin 0, Fin 0]])"
    by (simp add: inferGoals_def agents_body_def)
  show ?thesis
    using initialising_tick [of ?cur] tick2 by simp
qed

theorem first_tick_uniform_then_peaked_witness:
  "\<exists>m2. inferGoals 1 3 \<lparr>vx = Fin 1, vy = Fin 0\<rparr>
     [\<lparr>vx = Fin 1, vy = Fin 0\<rparr>, \<lparr>vx = Fin 0, vy = Fin 1\<rparr>, \<lparr>vx = Fin (- 1), vy = Fin 0\<rparr>]
     \<lparr>init_liks = [True, True, True], prev_prior = [Fin (1 / 3), Fin (1 / 3), Fin (1 / 3)]\<rparr>
   = Inr (m2, [[Fin 1, Fin 0, Fin 0]])"
  using first_tick_uniform_then_peaked by blast

subsection \<open>Several agents\<close>

lemma infer_agent_three_goals:
  assumes "agent * 3 + 3 \<le> length sims"
    and "map (goal_likelihood cur) (take 3 (drop (agent * 3) sims)) = liks"
    and "agent_update reset_priors 3 liks m = Inr (m', b)"
    and "2 < length b"
  shows "infer_agent cur 3 sims agent m = Inr (m', b)"
  using assms(1,4) unfolding infer_agent_def Let_def
  by (simp only: assms(2,3)) simp

lemma two_agents_same_slices:
  "inferGoals 2 3 \<lparr>vx = Fin 0, vy = Fin 0\<rparr>
     [\<lparr>vx = Fin 0, vy = Fin 0\<rparr>, \<lparr>vx = Fin 0, vy = Fin 0\<rparr>, \<lparr>vx = Fin 0, vy = Fin 0\<rparr>,
      \<lparr>vx = Fin 0, vy = Fin 0\<rparr>, \<lparr>vx = Fin 0, vy = Fin 0\<rparr>, \<lparr>vx = Fin 0, vy = Fin 0\<rparr>]
     \<lparr>init_liks = [True, True, True], prev_prior = [Fin (1 / 3), Fin (1 / 3), Fin (1 / 3)]\<rparr>
   = Inr (\<lparr>init_liks = [True, True, True],
            prev_prior = [Fin (1 / 3), Fin (1 / 3), Fin (1 / 3)]\<rparr>,
          [[Fin (1 / 3), Fin (1 / 3), Fin (1 / 3)], [Fin (1 / 3), Fin (1 / 3), Fin (1 / 3)]])"
proof -
  let ?m0 = "\<lparr>init_liks = [True, True, True],
              prev_prior = [Fin (1 / 3), Fin (1 / 3), Fin (1 / 3)]\<rparr>"
  define c :: real where "c = 1 / (2 * pi * (6 / 100)\<^sup>2)"
  have c: "0 < c" "c \<le> 70" unfolding c_def by (rule density_constant)+
  have T: "(1::real) = 1 / 3 + 1 / 3 + 1 / 3" by simp
  from equal_update [OF c _ _ _ _ _ _ T]
  have same: "agent_update reset_priors 3 [Fin c, Fin c, Fin c] ?m0
      = Inr (?m0, [Fin (1 / 3), Fin (1 / 3), Fin (1 / 3)])"
    by (simp add: stored_prior_def)
  let ?v0 = "\<lparr>vx = Fin 0, vy = Fin 0\<rparr>"
  have a0: "infer_agent ?v0 3 [?v0, ?v0, ?v0, ?v0, ?v0, ?v0] 0 ?m0
      = Inr (?m0, [Fin (1 / 3), Fin (1 / 3), Fin (1 / 3)])"
    by (rule infer_agent_three_goals [OF _ _ same]) (simp_all add: likelihood_at_mean c_def)
  have a1: "infer_agent ?v0 3 [?v0, ?v0, ?v0, ?v0, ?v0, ?v0] (Suc 0) ?m0
      = Inr (?m0, [Fin (1 / 3), Fin (1 / 3), Fin (1 / 3)])"
    by (rule infer_agent_three_goals [OF _ _ same]) (simp_all add: likelihood_at_mean c_def)
  show ?thesis
    unfolding inferGoals_def agents_body_def
    by (simp add: upt_rec numeral_2_eq_2 a0 a1)
qed

lemma two_agents_other_slice:
  "inferGoals 2 3 \<lparr>vx = Fin 0, vy = Fin 0\<rparr>
     [\<lparr>vx = Fin 0, vy = Fin 0\<rparr>, \<lparr>vx = Fin 1, vy = Fin 0\<rparr>, \<lparr>vx = Fin 1, vy = Fin 0\<rparr>,
      \<lparr>vx = Fin 0, vy = Fin 0\<rparr>, \<lparr>vx = Fin 0, vy = Fin 0\<rparr>, \<lparr>vx = Fin 0, vy = Fin 0\<rparr>]
     \<lparr>init_liks = [True, True, True], prev_prior = [Fin (1 / 3), Fin (1 / 3), Fin (1 / 3)]\<rparr>
   = Inr (\<lparr>init_liks = [True, True, True],
            prev_prior = [Fin (100 / 101), Fin (5 / 1000), Fin (5 / 1000)]\<rparr>,
          [[Fin 1, Fin 0, Fin 0], [Fin (100 / 101), Fin (1 / 202), Fin (1 / 202)]])"
proof -
  let ?m0 = "\<lparr>init_liks = [True, True, True],
              prev_prior = [Fin (1 / 3), Fin (1 / 3), Fin (1 / 3)]\<rparr>"
  let ?m1 = "\<lparr>init_liks = [True, True, True],
              prev_prior = [Fin 1, Fin (5 / 1000), Fin (5 / 1000)]\<rparr>"
  define c :: real where "c = 1 / (2 * pi * (6 / 100)\<^sup>2)"
  have c: "0 < c" "c \<le> 70" unfolding c_def by (rule density_constant)+
  have far: "goal_likelihood \<lparr>vx = Fin 0, vy = Fin 0\<rparr> \<lparr>vx = Fin 1, vy = Fin 0\<rparr> = Fin 0"
    by (rule likelihood_far) (simp_all add: flt_overflow_def)
  have first: "agent_update reset_priors 3 [Fin c, Fin 0, Fin 0] ?m0
      = Inr (?m1, [Fin 1, Fin 0, Fin 0])"
    using c by (rule peak_update)
  have T: "(101 / 100 :: real) = 1 + 5 / 1000 + 5 / 1000" by simp
  from equal_update [OF c _ _ _ _ _ _ T]
  have second: "agent_update reset_priors 3 [Fin c, Fin c, Fin c] ?m1
      = Inr (\<lparr>init_liks = [True, True, True],
               prev_prior = [Fin (100 / 101), Fin (5 / 1000), Fin (5 / 1000)]\<rparr>,
             [Fin (100 / 101), Fin (1 / 202), Fin (1 / 202)])"
    by (simp add: stored_prior_def)
  let ?v0 = "\<lparr>vx = Fin 0, vy = Fin 0\<rparr>"
  let ?v1 = "\<lparr>vx = Fin 1, vy = Fin 0\<rparr>"
  have a0: "infer_agent ?v0 3 [?v0, ?v1, ?v1, ?v0, ?v0, ?v0] 0 ?m0
      = Inr (?m1, [Fin 1, Fin 0, Fin 0])"
    by (rule infer_agent_three_goals [OF _ _ first])
      (simp_all add: likelihood_at_mean far c_def)
  have a1: "infer_agent ?v0 3 [?v0, ?v1, ?v1, ?v0, ?v0, ?v0] (Suc 0) ?m1
      = Inr (\<lparr>init_liks = [True, True, True],
               prev_prior = [Fin (100 / 101), Fin (5 / 1000), Fin (5 / 1000)]\<rparr>,
             [Fin (100 / 101), Fin (1 / 202), Fin (1 / 202)])"
    by (rule infer_agent_three_goals [OF _ _ second])
      (simp_all add: likelihood_at_mean c_def)
  have a1': "infer_agent ?v0 3 [?v0, ?v1, ?v1, ?v0, ?v0, ?v0] (Suc 0)
        \<lparr>init_liks = [True, True, True],
         prev_prior = [Fin 1, Fin (1 / 200), Fin (1 / 200)]\<rparr>
      = Inr (\<lparr>init_liks = [True, True, True],
               prev_prior = [Fin (100 / 101), Fin (1 / 200), Fin (1 / 200)]\<rparr>,
             [Fin (100 / 101), Fin (1 / 202), Fin (1 / 202)])"
    using a1 by simp
  show ?thesis
    unfolding inferGoals_def agents_body_def
    by (simp add: upt_rec numeral_2_eq_2 a0 a1')
qed

text \<open>
  C7 does not hold: \<^verbatim>\<open>init_liks_\<close> and \<^verbatim>\<open>prev_prior_\<close> are single vectors that every
  agent of the loop reads and writes. From the prior \<open>1/3\<close> for every goal and the observed
  velocity \<open>(0, 0)\<close>, the second agent has the same slice \<open>(0, 0)\<close>, \<open>(0, 0)\<close>, \<open>(0, 0)\<close> in two
  runs. When the first agent's slice is the same as the second's, the second agent's
  belief is \<open>1/3\<close> for every goal; when the first agent's slice is \<open>(0, 0)\<close>, \<open>(1, 0)\<close>,
  \<open>(1, 0)\<close>, the first agent leaves the priors \<open>1\<close>, \<open>0.005\<close>, \<open>0.005\<close>, and the second
  agent's belief is \<open>100/101\<close>, \<open>1/202\<close>, \<open>1/202\<close>.
\<close>

theorem shared_prior_counterexample:
  "inferGoals 2 3 \<lparr>vx = Fin 0, vy = Fin 0\<rparr>
     [\<lparr>vx = Fin 0, vy = Fin 0\<rparr>, \<lparr>vx = Fin 0, vy = Fin 0\<rparr>, \<lparr>vx = Fin 0, vy = Fin 0\<rparr>,
      \<lparr>vx = Fin 0, vy = Fin 0\<rparr>, \<lparr>vx = Fin 0, vy = Fin 0\<rparr>, \<lparr>vx = Fin 0, vy = Fin 0\<rparr>]
     \<lparr>init_liks = [True, True, True], prev_prior = [Fin (1 / 3), Fin (1 / 3), Fin (1 / 3)]\<rparr>
   = Inr (\<lparr>init_liks = [True, True, True],
            prev_prior = [Fin (1 / 3), Fin (1 / 3), Fin (1 / 3)]\<rparr>,
          [[Fin (1 / 3), Fin (1 / 3), Fin (1 / 3)], [Fin (1 / 3), Fin (1 / 3), Fin (1 / 3)]])
   \<and> inferGoals 2 3 \<lparr>vx = Fin 0, vy = Fin 0\<rparr>
     [\<lparr>vx = Fin 0, vy = Fin 0\<rparr>, \<lparr>vx = Fin 1, vy = Fin 0\<rparr>, \<lparr>vx = Fin 1, vy = Fin 0\<rparr>,
      \<lparr>vx = Fin 0, vy = Fin 0\<rparr>, \<lparr>vx = Fin 0, vy = Fin 0\<rparr>, \<lparr>vx = Fin 0, vy = Fin 0\<rparr>]
     \<lparr>init_liks = [True, True, True], prev_prior = [Fin (1 / 3), Fin (1 / 3), Fin (1 / 3)]\<rparr>
   = Inr (\<lparr>init_liks = [True, True, True],
            prev_prior = [Fin (100 / 101), Fin (5 / 1000), Fin (5 / 1000)]\<rparr>,
          [[Fin 1, Fin 0, Fin 0], [Fin (100 / 101), Fin (1 / 202), Fin (1 / 202)]])
   \<and> Fin (100 / 101) \<noteq> Fin (1 / 3)"
  using two_agents_same_slices two_agents_other_slice by simp

text \<open>
  C7 as amended: the belief of agent \<open>a\<close> depends on the observed velocity (one for all
  agents), on the filter state at the start of the tick (one for all agents) and on the
  slices of the agents \<open>0\<close> to \<open>a\<close>: two runs of a tick from the same state, with the same
  observed velocity, whose simulated velocities agree on the slices of the agents \<open>0\<close> to
  \<open>a\<close>, return the same belief for agent \<open>a\<close>.
\<close>

theorem belief_depends_on_earlier_agents_only:
  assumes "a < n_agents"
    and "take ((a + 1) * n_goals) sims1 = take ((a + 1) * n_goals) sims2"
    and "inferGoals n_agents n_goals curr_vel sims1 m = Inr (m1, beliefs1)"
    and "inferGoals n_agents n_goals curr_vel sims2 m = Inr (m2, beliefs2)"
  shows "beliefs1 ! a = beliefs2 ! a"
proof -
  have split: "[0..<n_agents] = [0..<a + 1] @ [a + 1..<n_agents]"
    using assms(1) upt_add_eq_append [of 0 "a + 1" "n_agents - (a + 1)"] by simp
  have pre: "for_loop (agents_body curr_vel n_goals sims1) [0..<a + 1] (m, [])
      = for_loop (agents_body curr_vel n_goals sims2) [0..<a + 1] (m, [])"
    using assms(2) by (rule agents_loop_prefix) simp
  from assms(3) obtain ma outa where
    p1: "for_loop (agents_body curr_vel n_goals sims1) [0..<a + 1] (m, []) = Inr (ma, outa)"
    and r1: "for_loop (agents_body curr_vel n_goals sims1) [a + 1..<n_agents] (ma, outa)
               = Inr (m1, beliefs1)"
    unfolding inferGoals_def split for_loop_append by (auto split: sum.splits)
  from assms(4) p1 pre have
    r2: "for_loop (agents_body curr_vel n_goals sims2) [a + 1..<n_agents] (ma, outa)
               = Inr (m2, beliefs2)"
    unfolding inferGoals_def split for_loop_append by (auto split: sum.splits)
  from agents_loop_output [OF p1] have len: "length outa = a + 1" by auto
  from agents_loop_output [OF r1] agents_loop_output [OF r2] len
  show ?thesis by (auto simp: nth_append)
qed

text \<open>
  The witness: three agents on an initialised filter, \<open>a = 1\<close>. The two runs differ in the
  slice of agent 2; agent 1, whose prior is what agent 0 stored, has the belief \<open>100/101\<close>,
  \<open>1/202\<close>, \<open>1/202\<close> in both.
\<close>

theorem belief_depends_on_earlier_agents_only_witness:
  "\<exists>m1 beliefs1 m2 beliefs2.
     inferGoals 3 3 \<lparr>vx = Fin 0, vy = Fin 0\<rparr>
       [\<lparr>vx = Fin 0, vy = Fin 0\<rparr>, \<lparr>vx = Fin 1, vy = Fin 0\<rparr>, \<lparr>vx = Fin 1, vy = Fin 0\<rparr>,
        \<lparr>vx = Fin 0, vy = Fin 0\<rparr>, \<lparr>vx = Fin 0, vy = Fin 0\<rparr>, \<lparr>vx = Fin 0, vy = Fin 0\<rparr>,
        \<lparr>vx = Fin 0, vy = Fin 0\<rparr>, \<lparr>vx = Fin 0, vy = Fin 0\<rparr>, \<lparr>vx = Fin 0, vy = Fin 0\<rparr>]
       \<lparr>init_liks = [True, True, True], prev_prior = [Fin (1 / 3), Fin (1 / 3), Fin (1 / 3)]\<rparr>
       = Inr (m1, beliefs1)
   \<and> inferGoals 3 3 \<lparr>vx = Fin 0, vy = Fin 0\<rparr>
       [\<lparr>vx = Fin 0, vy = Fin 0\<rparr>, \<lparr>vx = Fin 1, vy = Fin 0\<rparr>, \<lparr>vx = Fin 1, vy = Fin 0\<rparr>,
        \<lparr>vx = Fin 0, vy = Fin 0\<rparr>, \<lparr>vx = Fin 0, vy = Fin 0\<rparr>, \<lparr>vx = Fin 0, vy = Fin 0\<rparr>,
        \<lparr>vx = Fin 1, vy = Fin 0\<rparr>, \<lparr>vx = Fin 1, vy = Fin 0\<rparr>, \<lparr>vx = Fin 1, vy = Fin 0\<rparr>]
       \<lparr>init_liks = [True, True, True], prev_prior = [Fin (1 / 3), Fin (1 / 3), Fin (1 / 3)]\<rparr>
       = Inr (m2, beliefs2)
   \<and> beliefs1 ! 1 = beliefs2 ! 1
   \<and> beliefs2 ! 1 = [Fin (100 / 101), Fin (1 / 202), Fin (1 / 202)]"
proof -
  let ?v0 = "\<lparr>vx = Fin 0, vy = Fin 0\<rparr>"
  let ?v1 = "\<lparr>vx = Fin 1, vy = Fin 0\<rparr>"
  let ?s0 = "[?v0, ?v1, ?v1, ?v0, ?v0, ?v0]"
  let ?s1 = "[?v0, ?v1, ?v1, ?v0, ?v0, ?v0, ?v0, ?v0, ?v0]"
  let ?s2 = "[?v0, ?v1, ?v1, ?v0, ?v0, ?v0, ?v1, ?v1, ?v1]"
  let ?m0 = "\<lparr>init_liks = [True, True, True],
              prev_prior = [Fin (1 / 3), Fin (1 / 3), Fin (1 / 3)]\<rparr>"
  let ?mB = "\<lparr>init_liks = [True, True, True],
              prev_prior = [Fin (100 / 101), Fin (5 / 1000), Fin (5 / 1000)]\<rparr>"
  let ?outB = "[[Fin 1, Fin 0, Fin 0], [Fin (100 / 101), Fin (1 / 202), Fin (1 / 202)]]"
  have len: "length (init_liks ?m0) = 3" "length (prev_prior ?m0) = 3"
    by simp_all
  obtain m1 beliefs1 where r1: "inferGoals 3 3 ?v0 ?s1 ?m0 = Inr (m1, beliefs1)"
    using agents_loop_three [OF len, of 3 ?s1 ?v0 "[]"] by (auto simp: inferGoals_def)
  obtain m2 beliefs2 where r2: "inferGoals 3 3 ?v0 ?s2 ?m0 = Inr (m2, beliefs2)"
    using agents_loop_three [OF len, of 3 ?s2 ?v0 "[]"] by (auto simp: inferGoals_def)
  have same: "beliefs1 ! 1 = beliefs2 ! 1"
    using belief_depends_on_earlier_agents_only [OF _ _ r1 r2, of 1] by simp
  have "for_loop (agents_body ?v0 3 ?s1) [0..<2] (?m0, [])
      = for_loop (agents_body ?v0 3 ?s0) [0..<2] (?m0, [])"
    by (rule agents_loop_prefix [where a = 1]) simp_all
  also have "\<dots> = Inr (?mB, ?outB)"
    using two_agents_other_slice by (simp add: inferGoals_def)
  finally have two: "for_loop (agents_body ?v0 3 ?s1) [0..<2] (?m0, []) = Inr (?mB, ?outB)" .
  have "[0..<3] = [0..<2] @ [2]" by (simp add: upt_rec numeral_3_eq_3 numeral_2_eq_2)
  with r1 two have "for_loop (agents_body ?v0 3 ?s1) [2] (?mB, ?outB) = Inr (m1, beliefs1)"
    by (simp add: inferGoals_def for_loop_append)
  from agents_loop_output [OF this] obtain ys where "beliefs1 = ?outB @ ys" by blast
  then have "beliefs1 ! 1 = [Fin (100 / 101), Fin (1 / 202), Fin (1 / 202)]" by simp
  with same r1 r2 show ?thesis by (metis (no_types))
qed


end
